theory Spec2Isabelle
  imports Main
begin

section \<open>Docket ingestion: a shallow embedding of \<open>ingest.py\<close>\<close>

text \<open>
  The theory follows the methods of the class \<open>DocketIngester\<close>: the three name
  normalisers, the date parser, the party-list parser, the get-or-create entity resolvers,
  the per-record processor, the run tracker and the driver loop.

  Python strings are modelled as \<open>string\<close> (a list of 8-bit characters); the model covers
  ASCII text, so case conversion and the whitespace class are the ASCII ones.
  An exception is a value of type \<open>exc\<close>; a method that can raise returns a sum, and a
  method that also changes the ingester returns the changed ingester next to the sum,
  because nothing the method wrote before raising is undone.
\<close>

subsection \<open>JSON values and Python exceptions\<close>

text \<open>
  A docket is a JSON object read by \<open>json.load\<close>: a dictionary from keys to values.
  The scalar values are modelled; floats, arrays and nested objects are not.
\<close>

datatype json = JNull | JBool bool | JNum int | JStr string

type_synonym docket = "string \<Rightarrow> json option"

datatype exc = ValueError string | AttributeError string | TypeError string

text \<open>\<open>docket.get(key, default)\<close>\<close>

definition dget :: "docket \<Rightarrow> string \<Rightarrow> json \<Rightarrow> json" where
  "dget docket key dflt = (case docket key of None \<Rightarrow> dflt | Some v \<Rightarrow> v)"

text \<open>Python truthiness: \<open>not v\<close>.\<close>

fun falsy :: "json \<Rightarrow> bool" where
  "falsy JNull = True"
| "falsy (JBool b) = (if b then False else True)"
| "falsy (JNum n) = (n = 0)"
| "falsy (JStr s) = (s = [])"

fun type_name :: "json \<Rightarrow> string" where
  "type_name JNull = ''NoneType''"
| "type_name (JBool b) = ''bool''"
| "type_name (JNum n) = ''int''"
| "type_name (JStr s) = ''str''"

definition quote :: "string \<Rightarrow> string" where
  "quote s = [CHR 0x27] @ s @ [CHR 0x27]"

text \<open>The exception of a method call on a value that has no such method.\<close>

definition no_attribute :: "json \<Rightarrow> string \<Rightarrow> exc" where
  "no_attribute v a =
     AttributeError (quote (type_name v) @ '' object has no attribute '' @ quote a)"

text \<open>The exception of the \<open>re\<close> functions on a value that is not a string.\<close>

definition not_a_string :: "json \<Rightarrow> exc" where
  "not_a_string v =
     TypeError (''expected string or bytes-like object, got '' @ quote (type_name v))"

subsection \<open>String primitives\<close>

definition is_space :: "char \<Rightarrow> bool" where
  "is_space c = (c \<in> set [CHR 0x09, CHR 0x0A, CHR 0x0B, CHR 0x0C, CHR 0x0D,
                          CHR 0x1C, CHR 0x1D, CHR 0x1E, CHR 0x1F, CHR 0x20])"

definition is_digit :: "char \<Rightarrow> bool" where
  "is_digit c = (c \<in> set ''0123456789'')"

definition digit_val :: "char \<Rightarrow> nat" where
  "digit_val c = (case map_of (zip ''0123456789'' [0, 1, 2, 3, 4, 5, 6, 7, 8, 9]) c of
                    Some n \<Rightarrow> n | None \<Rightarrow> 0)"

definition to_lower :: "char \<Rightarrow> char" where
  "to_lower c = (case map_of (zip ''ABCDEFGHIJKLMNOPQRSTUVWXYZ''
                                  ''abcdefghijklmnopqrstuvwxyz'') c of
                   Some d \<Rightarrow> d | None \<Rightarrow> c)"

definition to_upper :: "char \<Rightarrow> char" where
  "to_upper c = (case map_of (zip ''abcdefghijklmnopqrstuvwxyz''
                                  ''ABCDEFGHIJKLMNOPQRSTUVWXYZ'') c of
                   Some d \<Rightarrow> d | None \<Rightarrow> c)"

text \<open>\<open>s.lower()\<close>, \<open>s.upper()\<close>, \<open>s.strip()\<close>\<close>

definition py_lower :: "string \<Rightarrow> string" where
  "py_lower s = map to_lower s"

definition py_upper :: "string \<Rightarrow> string" where
  "py_upper s = map to_upper s"

definition py_strip :: "string \<Rightarrow> string" where
  "py_strip s = rev (dropWhile is_space (rev (dropWhile is_space s)))"

text \<open>
  \<open>s.split()\<close>: the maximal runs of characters that are not whitespace. The first
  argument holds the run being read, last character first.
\<close>

fun split_ws :: "string \<Rightarrow> string \<Rightarrow> string list" where
  "split_ws cur [] = (if cur = [] then [] else [rev cur])"
| "split_ws cur (c # cs) =
     (if is_space c then (if cur = [] then split_ws [] cs else rev cur # split_ws [] cs)
      else split_ws (c # cur) cs)"

definition py_split :: "string \<Rightarrow> string list" where
  "py_split s = split_ws [] s"

text \<open>\<open>sep.join(parts)\<close>\<close>

fun py_join :: "string \<Rightarrow> string list \<Rightarrow> string" where
  "py_join sep [] = []"
| "py_join sep [w] = w"
| "py_join sep (w # v # ws) = w @ sep @ py_join sep (v # ws)"

text \<open>
  Splitting at every separator character, empty pieces kept: \<open>s.split(',')\<close> and
  \<open>re.split(r'[;/]', s)\<close>.
\<close>

fun split_on :: "(char \<Rightarrow> bool) \<Rightarrow> string \<Rightarrow> string list" where
  "split_on p [] = [[]]"
| "split_on p (c # cs) =
     (if p c then [] # split_on p cs
      else (case split_on p cs of w # ws \<Rightarrow> (c # w) # ws | [] \<Rightarrow> [[c]]))"

text \<open>
  A case-insensitive match of a lower-case literal at the start of a string
  (\<open>re.IGNORECASE\<close>): the rest of the string after the match.
\<close>

definition ci_prefix :: "string \<Rightarrow> string \<Rightarrow> string option" where
  "ci_prefix p s =
     (if length p \<le> length s \<and> py_lower (take (length p) s) = p
      then Some (drop (length p) s) else None)"

text \<open>The pattern \<open>\s+\<close> when nothing follows it: the longest run, at least one.\<close>

definition spaces1 :: "string \<Rightarrow> string option" where
  "spaces1 s = (case s of [] \<Rightarrow> None
                | c # cs \<Rightarrow> if is_space c then Some (dropWhile is_space cs) else None)"

text \<open>The first alternative that matches (the order of a regular expression's \<open>|\<close>).\<close>

fun first_some :: "'a option list \<Rightarrow> 'a option" where
  "first_some [] = None"
| "first_some (None # xs) = first_some xs"
| "first_some (Some x # xs) = Some x"

text \<open>Decimal numerals: \<open>str(n)\<close> for an integer.\<close>

fun digits_of :: "nat \<Rightarrow> string" where
  "digits_of n =
     (if n < 10 then [''0123456789'' ! n]
      else digits_of (n div 10) @ [''0123456789'' ! (n mod 10)])"

declare digits_of.simps [simp del]

fun py_str :: "json \<Rightarrow> string" where
  "py_str JNull = ''None''"
| "py_str (JBool b) = (if b then ''True'' else ''False'')"
| "py_str (JNum n) = (if n < 0 then CHR ''-'' # digits_of (nat (- n)) else digits_of (nat n))"
| "py_str (JStr s) = s"

text \<open>
  \<open>repr(s)\<close> of a string without quotes, backslashes or control characters: the string
  between single quotes.
\<close>

definition py_repr :: "string \<Rightarrow> string" where
  "py_repr s = quote s"

subsection \<open>Normalizer\<close>

text \<open>
  \<open>normalize_court_name\<close>: \<open>re.sub(r'[.\s]+', '', court.upper())\<close> deletes every period
  and every whitespace character.
\<close>

definition normalize_court_name :: "string \<Rightarrow> string" where
  "normalize_court_name court =
     (if court = [] then []
      else filter (\<lambda>c. if c = CHR ''.'' then False else if is_space c then False else True)
             (py_upper court))"

text \<open>
  \<open>normalize_judge_name\<close>. The pattern \<open>^(hon\.?|judge|justice)\s+\<close> is tried at the start
  of the string only, with its alternatives in order; \<open>title_match\<close> gives the text after
  the match, and \<open>re.sub\<close> returns the string unchanged when there is no match.
\<close>

definition title_match :: "string \<Rightarrow> string option" where
  "title_match s = first_some
     [case ci_prefix ''hon'' s of None \<Rightarrow> None
      | Some r \<Rightarrow> (case r of [] \<Rightarrow> None
                   | c # cs \<Rightarrow> if c = CHR ''.'' then spaces1 cs else None),
      case ci_prefix ''hon'' s of None \<Rightarrow> None | Some r \<Rightarrow> spaces1 r,
      case ci_prefix ''judge'' s of None \<Rightarrow> None | Some r \<Rightarrow> spaces1 r,
      case ci_prefix ''justice'' s of None \<Rightarrow> None | Some r \<Rightarrow> spaces1 r]"

definition strip_title :: "string \<Rightarrow> string" where
  "strip_title s = (case title_match s of None \<Rightarrow> s | Some r \<Rightarrow> r)"

definition normalize_judge_name :: "string \<Rightarrow> string" where
  "normalize_judge_name judge =
     (if judge = [] then []
      else py_lower (py_join '' '' (py_split (strip_title judge))))"

definition normalize_party_name :: "string \<Rightarrow> string" where
  "normalize_party_name party =
     (if party = [] then []
      else py_strip (py_lower (py_join '' '' (py_split party))))"

subsection \<open>DateResolver\<close>

datatype date = Date (year: nat) (month: nat) (day: nat)

definition is_leap :: "nat \<Rightarrow> bool" where
  "is_leap y = (if y mod 400 = 0 then True else if y mod 100 = 0 then False else y mod 4 = 0)"

definition days_in_month :: "nat \<Rightarrow> nat \<Rightarrow> nat" where
  "days_in_month y m =
     (if m = 2 then (if is_leap y then 29 else 28)
      else if m \<in> set [4, 6, 9, 11] then 30 else 31)"

text \<open>
  The constructor \<open>date(year, month, day)\<close> of the standard library: it raises
  \<open>ValueError\<close> (here \<open>Inl\<close> with the message) outside the calendar.
\<close>

definition make_date :: "nat \<Rightarrow> nat \<Rightarrow> nat \<Rightarrow> string + date" where
  "make_date y m d =
     (if y < 1 \<or> 9999 < y then Inl (''year '' @ digits_of y @ '' is out of range'')
      else if m < 1 \<or> 12 < m then Inl ''month must be in 1..12''
      else if d < 1 \<or> days_in_month y m < d then Inl ''day is out of range for month''
      else Inr (Date y m d))"

text \<open>
  \<open>datetime.strptime\<close> of the standard library, for the directives the parser uses.
  A format is compiled to a regular expression that is matched at the start of the text,
  ignoring case; the first match in backtracking order is taken, and text left over after
  it is an error. A format is written as its list of directives; a run of blanks in the
  format is \<open>Blank\<close> (the pattern \<open>\s+\<close>). The month names are those of the C locale.
\<close>

datatype directive = PctY | Pctm | Pctd | Pctb | PctB | Lit char | Blank

definition month_abbrs :: "string list" where
  "month_abbrs = [''jan'', ''feb'', ''mar'', ''apr'', ''may'', ''jun'',
                  ''jul'', ''aug'', ''sep'', ''oct'', ''nov'', ''dec'']"

definition month_names :: "string list" where
  "month_names = [''january'', ''february'', ''march'', ''april'', ''may'', ''june'',
                  ''july'', ''august'', ''september'', ''october'', ''november'',
                  ''december'']"

text \<open>The matches of a month name at the start of \<open>s\<close>: month number and rest.\<close>

fun month_matches :: "string list \<Rightarrow> nat \<Rightarrow> string \<Rightarrow> (nat \<times> string) list" where
  "month_matches [] k s = []"
| "month_matches (n # ns) k s =
     (case ci_prefix n s of None \<Rightarrow> [] | Some r \<Rightarrow> [(k, r)]) @ month_matches ns (Suc k) s"

text \<open>\<open>%m\<close> is \<open>1[0-2]|0[1-9]|[1-9]\<close>.\<close>

definition month_digits :: "string \<Rightarrow> (nat \<times> string) list" where
  "month_digits s =
     (case s of a # b # r \<Rightarrow>
          (if a = CHR ''1'' \<and> b \<in> set ''012'' then [(10 + digit_val b, r)] else [])
        @ (if a = CHR ''0'' \<and> b \<in> set ''123456789'' then [(digit_val b, r)] else [])
      | _ \<Rightarrow> [])
   @ (case s of a # r \<Rightarrow> if a \<in> set ''123456789'' then [(digit_val a, r)] else []
      | [] \<Rightarrow> [])"

text \<open>\<open>%d\<close> is \<open>3[0-1]|[1-2]\d|0[1-9]|[1-9]| [1-9]\<close>.\<close>

definition day_digits :: "string \<Rightarrow> (nat \<times> string) list" where
  "day_digits s =
     (case s of a # b # r \<Rightarrow>
          (if a = CHR ''3'' \<and> b \<in> set ''01'' then [(30 + digit_val b, r)] else [])
        @ (if a \<in> set ''12'' \<and> is_digit b then [(10 * digit_val a + digit_val b, r)] else [])
        @ (if a = CHR ''0'' \<and> b \<in> set ''123456789'' then [(digit_val b, r)] else [])
      | _ \<Rightarrow> [])
   @ (case s of a # r \<Rightarrow> if a \<in> set ''123456789'' then [(digit_val a, r)] else []
      | [] \<Rightarrow> [])
   @ (case s of a # b # r \<Rightarrow>
          if a = CHR '' '' \<and> b \<in> set ''123456789'' then [(digit_val b, r)] else []
      | _ \<Rightarrow> [])"

text \<open>\<open>%Y\<close> is \<open>\d\d\d\d\<close>.\<close>

definition year_digits :: "string \<Rightarrow> (nat \<times> string) list" where
  "year_digits s =
     (case s of a # b # c # d # r \<Rightarrow>
        if is_digit a \<and> is_digit b \<and> is_digit c \<and> is_digit d
        then [(1000 * digit_val a + 100 * digit_val b + 10 * digit_val c + digit_val d, r)]
        else []
      | _ \<Rightarrow> [])"

text \<open>\<open>\s+\<close> inside a pattern: the longest run first, then every shorter one.\<close>

definition blank_matches :: "string \<Rightarrow> string list" where
  "blank_matches s =
     map (\<lambda>n. drop n s) (rev [1 ..< Suc (length (takeWhile is_space s))])"

text \<open>
  The matches of one directive, in backtracking order. The fields read so far are
  (year, month, day).
\<close>

fun match_directive ::
  "directive \<Rightarrow> nat \<times> nat \<times> nat \<Rightarrow> string \<Rightarrow> ((nat \<times> nat \<times> nat) \<times> string) list" where
  "match_directive PctY (y, m, d) s = map (\<lambda>(v, r). ((v, m, d), r)) (year_digits s)"
| "match_directive Pctm (y, m, d) s = map (\<lambda>(v, r). ((y, v, d), r)) (month_digits s)"
| "match_directive Pctd (y, m, d) s = map (\<lambda>(v, r). ((y, m, v), r)) (day_digits s)"
| "match_directive Pctb (y, m, d) s =
     map (\<lambda>(v, r). ((y, v, d), r)) (month_matches month_abbrs 1 s)"
| "match_directive PctB (y, m, d) s =
     map (\<lambda>(v, r). ((y, v, d), r)) (month_matches month_names 1 s)"
| "match_directive (Lit c) (y, m, d) s =
     (case s of [] \<Rightarrow> []
      | a # r \<Rightarrow> if to_lower a = to_lower c then [((y, m, d), r)] else [])"
| "match_directive Blank (y, m, d) s = map (\<lambda>r. ((y, m, d), r)) (blank_matches s)"

fun strp ::
  "directive list \<Rightarrow> nat \<times> nat \<times> nat \<Rightarrow> string \<Rightarrow> ((nat \<times> nat \<times> nat) \<times> string) list" where
  "strp [] f s = [(f, s)]"
| "strp (d # ds) f s = concat (map (\<lambda>(f', r). strp ds f' r) (match_directive d f s))"

definition strptime :: "directive list \<Rightarrow> string \<Rightarrow> string + date" where
  "strptime fmt s =
     (case strp fmt (1900, 1, 1) s of
        [] \<Rightarrow> Inl ''time data does not match format''
      | ((y, m, d), rest) # _ \<Rightarrow>
          if rest = [] then make_date y m d else Inl ''unconverted data remains'')"

text \<open>The five formats of \<open>parse_date\<close>.\<close>

definition fmt_iso :: "directive list" where \<comment> \<open>\<open>%Y-%m-%d\<close>\<close>
  "fmt_iso = [PctY, Lit CHR ''-'', Pctm, Lit CHR ''-'', Pctd]"

definition fmt_abbr :: "directive list" where \<comment> \<open>\<open>%b %d, %Y\<close>\<close>
  "fmt_abbr = [Pctb, Blank, Pctd, Lit CHR '','', Blank, PctY]"

definition fmt_full :: "directive list" where \<comment> \<open>\<open>%B %d, %Y\<close>\<close>
  "fmt_full = [PctB, Blank, Pctd, Lit CHR '','', Blank, PctY]"

definition fmt_slash :: "directive list" where \<comment> \<open>\<open>%m/%d/%Y\<close>\<close>
  "fmt_slash = [Pctm, Lit CHR ''/'', Pctd, Lit CHR ''/'', PctY]"

definition fmt_dash :: "directive list" where \<comment> \<open>\<open>%m-%d-%Y\<close>\<close>
  "fmt_dash = [Pctm, Lit CHR ''-'', Pctd, Lit CHR ''-'', PctY]"

text \<open>
  The pattern \<open>^\s*(\d{1,2})[-/](\d{1,2})[-/](\d{4})\s*$\<close>: the groups as numbers
  (month, day, year) when the whole string matches.
\<close>

definition digits12 :: "string \<Rightarrow> (nat \<times> string) list" where
  "digits12 s =
     (case s of a # b # r \<Rightarrow>
        if is_digit a \<and> is_digit b then [(10 * digit_val a + digit_val b, r)] else []
      | _ \<Rightarrow> [])
   @ (case s of a # r \<Rightarrow> if is_digit a then [(digit_val a, r)] else [] | [] \<Rightarrow> [])"

definition dash_or_slash :: "string \<Rightarrow> string list" where
  "dash_or_slash s =
     (case s of [] \<Rightarrow> [] | a # r \<Rightarrow> if a = CHR ''-'' \<or> a = CHR ''/'' then [r] else [])"

definition mdy_numeric :: "string \<Rightarrow> (nat \<times> nat \<times> nat) option" where
  "mdy_numeric s =
     (case concat (map (\<lambda>(mm, r1). concat (map (\<lambda>r2. concat (map (\<lambda>(dd, r3).
              concat (map (\<lambda>r4. concat (map (\<lambda>(yyyy, r5).
                 if list_all is_space r5 then [(mm, dd, yyyy)] else [])
               (year_digits r4))) (dash_or_slash r3)))
            (digits12 r2))) (dash_or_slash r1)))
          (digits12 (dropWhile is_space s))) of
        [] \<Rightarrow> None
      | g # _ \<Rightarrow> Some g)"

text \<open>The loops \<open>for fmt in [...]\<close>: the first format that parses.\<close>

fun try_formats :: "directive list list \<Rightarrow> string \<Rightarrow> date option" where
  "try_formats [] s = None"
| "try_formats (fmt # fmts) s =
     (case strptime fmt s of Inr d \<Rightarrow> Some d | Inl e \<Rightarrow> try_formats fmts s)"

definition parse_date :: "json \<Rightarrow> exc + date" where
  "parse_date date_str =
     (if date_str = JNull then Inl (ValueError ''filed_date missing'')
      else
        let s = py_strip (py_str date_str) in
        if s = [] then Inl (ValueError ''filed_date missing'')
        else
          (case strptime fmt_iso s of
             Inr d \<Rightarrow> Inr d
           | Inl e0 \<Rightarrow>
              (case mdy_numeric s of
                 Some (mm, dd, yyyy) \<Rightarrow>
                   (case make_date yyyy mm dd of
                      Inr d \<Rightarrow> Inr d
                    | Inl e \<Rightarrow> Inl (ValueError
                        (''filed_date parse failed (mdy numeric): '' @ py_repr s @ '': '' @ e)))
               | None \<Rightarrow>
                   (case try_formats [fmt_abbr, fmt_full] s of
                      Some d \<Rightarrow> Inr d
                    | None \<Rightarrow>
                       (case try_formats [fmt_slash, fmt_dash] s of
                          Some d \<Rightarrow> Inr d
                        | None \<Rightarrow>
                            Inl (ValueError (''filed_date parse failed: '' @ py_repr s)))))))"

subsection \<open>PartyListParser\<close>

definition role_tokens :: "string list" where
  "role_tokens = [''plaintiff'', ''defendant'', ''plaintiffs'', ''defendants'',
                  ''third_party'', ''intervenor'', ''other'']"

text \<open>
  The pattern \<open>\((plaintiff|...|other)\)\<close> at the start of \<open>s\<close>: the text of group 1.
\<close>

definition role_at :: "string \<Rightarrow> string option" where
  "role_at s =
     (case s of [] \<Rightarrow> None
      | c # r \<Rightarrow>
         if c = CHR ''('' then
           first_some (map (\<lambda>tok. case ci_prefix tok r of
                                     None \<Rightarrow> None
                                   | Some r' \<Rightarrow> (case r' of [] \<Rightarrow> None
                                        | b # r'' \<Rightarrow> if b = CHR '')''
                                                     then Some (take (length tok) r)
                                                     else None))
                           role_tokens)
         else None)"

text \<open>\<open>re.search\<close>: the leftmost position where the pattern matches.\<close>

fun role_search :: "string \<Rightarrow> string option" where
  "role_search [] = None"
| "role_search (c # cs) =
     (case role_at (c # cs) of Some g \<Rightarrow> Some g | None \<Rightarrow> role_search cs)"

text \<open>
  \<open>re.sub(r'\([^)]+\)', '', section)\<close>: every parenthesis followed by at least one
  character other than \<open>)\<close> and then by \<open>)\<close> is deleted, from left to right.
\<close>

function strip_parens :: "string \<Rightarrow> string" where
  "strip_parens [] = []"
| "strip_parens (c # cs) =
     (if c = CHR ''('' then
        (let inner = takeWhile (\<lambda>x. if x = CHR '')'' then False else True) cs;
             rest = dropWhile (\<lambda>x. if x = CHR '')'' then False else True) cs
         in if inner = [] then c # strip_parens cs
            else if rest = [] then c # strip_parens cs
            else strip_parens (tl rest))
      else c # strip_parens cs)"
  by pat_completeness auto
termination
proof (relation "measure length")
  fix c :: char and cs inner rest :: string
  assume "rest = dropWhile (\<lambda>x. if x = CHR '')'' then False else True) cs"
  then have "length rest \<le> length cs"
    by (simp add: length_dropWhile_le)
  then show "(tl rest, c # cs) \<in> measure length"
    by simp
qed auto

declare strip_parens.simps [simp del]

definition ends_with_s :: "string \<Rightarrow> bool" where
  "ends_with_s role = (case rev role of [] \<Rightarrow> False | c # cs \<Rightarrow> c = CHR ''s'')"

text \<open>\<open>[p.strip() for p in section.split(',') if p.strip()]\<close>\<close>

definition comma_names :: "string \<Rightarrow> string list" where
  "comma_names section =
     filter (\<lambda>p. if p = [] then False else True)
       (map py_strip (split_on (\<lambda>c. c = CHR '','') section))"

text \<open>The body of the loop over the major sections.\<close>

definition parse_section :: "string \<Rightarrow> (string \<times> string) list" where
  "parse_section section0 =
     (let section = py_strip section0 in
      if section = [] then []
      else
        (case role_search section of
           Some g \<Rightarrow>
             (let role0 = py_lower g;
                  role = (if ends_with_s role0 then butlast role0 else role0);
                  section' = py_strip (strip_parens section)
              in map (\<lambda>party_name. (party_name, role)) (comma_names section'))
         | None \<Rightarrow> map (\<lambda>party_name. (party_name, ''other'')) (comma_names section)))"

definition parse_parties :: "json \<Rightarrow> exc + (string \<times> string) list" where
  "parse_parties parties_str =
     (if falsy parties_str then Inr []
      else
        (case parties_str of
           JStr s \<Rightarrow>
             Inr (concat (map parse_section
                    (split_on (\<lambda>c. c = CHR '';'' \<or> c = CHR ''/'') s)))
         | _ \<Rightarrow> Inl (not_a_string parties_str)))"

text \<open>The roles a party can be given: the role tokens in the singular.\<close>

definition roles :: "string list" where
  "roles = [''plaintiff'', ''defendant'', ''third_party'', ''intervenor'', ''other'']"

subsection \<open>The store\<close>

text \<open>
  The relational store, one field per table. An entity table (\<open>courts\<close>, \<open>judges\<close>,
  \<open>parties\<close>) is a list of rows (id, name, normalized name) in insertion order, a case type
  is a row (id, name); each table draws the ids of its new rows from a sequence.
  The tables written with \<open>ON CONFLICT\<close> have the unique index that clause needs, and are
  keyed by it: \<open>cases\<close> by the case number, a name-variation table by (entity id, raw
  name) with \<open>seen_count\<close> as value, \<open>case_parties\<close> is a set of triples.
  Of the timestamp columns only \<open>cases.updated_at\<close> is kept; the time is a number.
\<close>

type_synonym entity_row = "nat \<times> string \<times> string"

record case_row =
  case_id :: nat
  court_id :: nat
  title :: json
  filed_date :: date
  case_type_id :: nat
  judge_id :: "nat option"
  docket_text :: json
  status :: string
  updated_at :: "nat option"

record run_row =
  run_run_id :: nat
  source_name :: string
  source_uri :: "string option"
  finished :: bool
  total_read :: nat
  total_inserted :: nat
  total_updated :: nat
  total_failed :: nat

record error_row =
  err_run_id :: nat
  err_record_hash :: string
  err_case_number :: "string option"
  err_error_code :: string
  err_error_message :: string
  err_retry_count :: nat
  err_raw :: docket

record store =
  courts :: "entity_row list"
  court_seq :: nat
  court_name_variations :: "nat \<times> string \<Rightarrow> nat option"
  judges :: "entity_row list"
  judge_seq :: nat
  judge_name_variations :: "nat \<times> string \<Rightarrow> nat option"
  case_types :: "(nat \<times> string) list"
  case_type_seq :: nat
  parties :: "entity_row list"
  party_seq :: nat
  party_name_variations :: "nat \<times> string \<Rightarrow> nat option"
  cases :: "string \<Rightarrow> case_row option"
  case_seq :: nat
  case_parties :: "(nat \<times> nat \<times> string) set"
  ingest_runs :: "run_row list"
  run_seq :: nat
  ingest_errors :: "error_row list"

text \<open>
  Modelled from the spec: the column default of \<open>seen_count\<close>, declared in the database
  schema, which is not among the sources. The row of a raw name seen for the first time
  counts one observation, and \<open>seen_count\<close> is incremented by every later one.
\<close>

definition seen_count_default :: nat where
  "seen_count_default = 1"

text \<open>
  Modelled from the spec: the column default of \<open>retry_count\<close>, declared in the database
  schema, which is not among the sources. A new error row has \<open>retry_count\<close> 0, so that
  it is 1 after the second occurrence of the record.
\<close>

definition retry_count_default :: nat where
  "retry_count_default = 0"

text \<open>\<open>SELECT id FROM t WHERE normalized_name = key\<close> and \<open>fetchone()\<close>\<close>

definition select_id :: "string \<Rightarrow> entity_row list \<Rightarrow> nat option" where
  "select_id key rows =
     (case find (\<lambda>(i, name, normalized). normalized = key) rows of
        None \<Rightarrow> None | Some (i, name, normalized) \<Rightarrow> Some i)"

text \<open>\<open>SELECT id FROM case_types WHERE name = key\<close> and \<open>fetchone()\<close>\<close>

definition select_type_id :: "string \<Rightarrow> (nat \<times> string) list \<Rightarrow> nat option" where
  "select_type_id key rows =
     (case find (\<lambda>(i, name). name = key) rows of None \<Rightarrow> None | Some (i, name) \<Rightarrow> Some i)"

text \<open>
  \<open>INSERT ... ON CONFLICT (id, raw_name) DO UPDATE SET seen_count = seen_count + 1\<close>
\<close>

definition bump_variation ::
  "nat \<times> string \<Rightarrow> (nat \<times> string \<Rightarrow> nat option) \<Rightarrow> (nat \<times> string \<Rightarrow> nat option)" where
  "bump_variation k vars =
     vars(k \<mapsto> (case vars k of None \<Rightarrow> seen_count_default | Some n \<Rightarrow> Suc n))"

subsection \<open>The ingester\<close>

text \<open>A line of the quarantine log (its timestamp apart).\<close>

record qline =
  q_run_id :: nat
  q_error_code :: string
  q_why :: string
  q_raw :: docket
  q_record_hash :: string

text \<open>
  The state of a \<open>DocketIngester\<close>. \<open>db\<close> is the store as the ingester's connection
  sees it, its own uncommitted writes included; \<open>committed\<close> is the store as of the last
  \<open>commit\<close>, to which \<open>rollback\<close> returns. \<open>files\<close> holds the quarantine logs by path.
\<close>

record ingester =
  db :: store
  committed :: store
  courts_cache :: "string \<Rightarrow> nat option"
  judges_cache :: "string \<Rightarrow> nat option"
  case_types_cache :: "string \<Rightarrow> nat option"
  parties_cache :: "string \<Rightarrow> nat option"
  processed_cases :: "string set"
  run_id :: "nat option"
  quarantine_path :: "string option"
  warnings :: "string list"
  c_read :: nat
  c_inserted :: nat
  c_updated :: nat
  c_failed :: nat
  files :: "string \<Rightarrow> qline list"

definition commit :: "ingester \<Rightarrow> ingester" where
  "commit \<sigma> = \<sigma>\<lparr>committed := db \<sigma>\<rparr>"

definition rollback :: "ingester \<Rightarrow> ingester" where
  "rollback \<sigma> = \<sigma>\<lparr>db := committed \<sigma>\<rparr>"

definition empty_store :: store where
  "empty_store =
     \<lparr>courts = [], court_seq = 0, court_name_variations = (\<lambda>k. None),
      judges = [], judge_seq = 0, judge_name_variations = (\<lambda>k. None),
      case_types = [], case_type_seq = 0,
      parties = [], party_seq = 0, party_name_variations = (\<lambda>k. None),
      cases = (\<lambda>k. None), case_seq = 0, case_parties = {},
      ingest_runs = [], run_seq = 0, ingest_errors = []\<rparr>"

text \<open>\<open>DocketIngester.__init__\<close>, connected to a store.\<close>

definition new_ingester :: "store \<Rightarrow> ingester" where
  "new_ingester s =
     \<lparr>db = s, committed = s,
      courts_cache = (\<lambda>k. None), judges_cache = (\<lambda>k. None),
      case_types_cache = (\<lambda>k. None), parties_cache = (\<lambda>k. None),
      processed_cases = {}, run_id = None, quarantine_path = None, warnings = [],
      c_read = 0, c_inserted = 0, c_updated = 0, c_failed = 0,
      files = (\<lambda>p. [])\<rparr>"

subsection \<open>EntityResolver\<close>

definition record_court_variation :: "nat \<Rightarrow> string \<Rightarrow> ingester \<Rightarrow> ingester" where
  "record_court_variation cid raw_name \<sigma> =
     \<sigma>\<lparr>db := (db \<sigma>)\<lparr>court_name_variations :=
            bump_variation (cid, raw_name) (court_name_variations (db \<sigma>))\<rparr>\<rparr>"

definition get_or_create_court :: "json \<Rightarrow> ingester \<Rightarrow> (exc + nat) \<times> ingester" where
  "get_or_create_court court_name \<sigma> =
     (if falsy court_name then (Inl (ValueError ''Court name cannot be empty''), \<sigma>)
      else
        (case court_name of
           JStr raw \<Rightarrow>
             (let normalized = normalize_court_name raw in
              (case courts_cache \<sigma> normalized of
                 Some cid \<Rightarrow> (Inr cid, record_court_variation cid raw \<sigma>)
               | None \<Rightarrow>
                  (case select_id normalized (courts (db \<sigma>)) of
                     Some cid \<Rightarrow>
                       (Inr cid, record_court_variation cid raw
                          (\<sigma>\<lparr>courts_cache := (courts_cache \<sigma>)(normalized \<mapsto> cid)\<rparr>))
                   | None \<Rightarrow>
                       (let cid = Suc (court_seq (db \<sigma>)) in
                        (Inr cid, record_court_variation cid raw
                          (\<sigma>\<lparr>db := (db \<sigma>)\<lparr>courts := courts (db \<sigma>) @ [(cid, raw, normalized)],
                                            court_seq := cid\<rparr>,
                             courts_cache := (courts_cache \<sigma>)(normalized \<mapsto> cid)\<rparr>))))))
         | _ \<Rightarrow> (Inl (no_attribute court_name ''upper''), \<sigma>)))"

definition record_judge_variation :: "nat \<Rightarrow> string \<Rightarrow> ingester \<Rightarrow> ingester" where
  "record_judge_variation jid raw_name \<sigma> =
     \<sigma>\<lparr>db := (db \<sigma>)\<lparr>judge_name_variations :=
            bump_variation (jid, raw_name) (judge_name_variations (db \<sigma>))\<rparr>\<rparr>"

definition get_or_create_judge ::
  "json \<Rightarrow> ingester \<Rightarrow> (exc + nat option) \<times> ingester" where
  "get_or_create_judge judge_name \<sigma> =
     (if falsy judge_name then (Inr None, \<sigma>)
      else
        (case judge_name of
           JStr raw \<Rightarrow>
             (let normalized = normalize_judge_name raw in
              if normalized = [] then (Inr None, \<sigma>)
              else
               (case judges_cache \<sigma> normalized of
                  Some jid \<Rightarrow> (Inr (Some jid), record_judge_variation jid raw \<sigma>)
                | None \<Rightarrow>
                   (case select_id normalized (judges (db \<sigma>)) of
                      Some jid \<Rightarrow>
                        (Inr (Some jid), record_judge_variation jid raw
                           (\<sigma>\<lparr>judges_cache := (judges_cache \<sigma>)(normalized \<mapsto> jid)\<rparr>))
                    | None \<Rightarrow>
                        (let jid = Suc (judge_seq (db \<sigma>)) in
                         (Inr (Some jid), record_judge_variation jid raw
                           (\<sigma>\<lparr>db := (db \<sigma>)\<lparr>judges := judges (db \<sigma>) @ [(jid, raw, normalized)],
                                             judge_seq := jid\<rparr>,
                              judges_cache := (judges_cache \<sigma>)(normalized \<mapsto> jid)\<rparr>))))))
         | _ \<Rightarrow> (Inl (not_a_string judge_name), \<sigma>)))"

definition get_or_create_case_type :: "json \<Rightarrow> ingester \<Rightarrow> (exc + nat) \<times> ingester" where
  "get_or_create_case_type case_type \<sigma> =
     (if falsy case_type then (Inl (ValueError ''Case type cannot be empty''), \<sigma>)
      else
        (case case_type of
           JStr raw \<Rightarrow>
             (let name = py_strip (py_lower raw) in
              (case case_types_cache \<sigma> name of
                 Some tid \<Rightarrow> (Inr tid, \<sigma>)
               | None \<Rightarrow>
                  (case select_type_id name (case_types (db \<sigma>)) of
                     Some tid \<Rightarrow>
                       (Inr tid, \<sigma>\<lparr>case_types_cache := (case_types_cache \<sigma>)(name \<mapsto> tid)\<rparr>)
                   | None \<Rightarrow>
                       (let tid = Suc (case_type_seq (db \<sigma>)) in
                        (Inr tid,
                         \<sigma>\<lparr>db := (db \<sigma>)\<lparr>case_types := case_types (db \<sigma>) @ [(tid, name)],
                                          case_type_seq := tid\<rparr>,
                           case_types_cache := (case_types_cache \<sigma>)(name \<mapsto> tid)\<rparr>)))))
         | _ \<Rightarrow> (Inl (no_attribute case_type ''lower''), \<sigma>)))"

definition record_party_variation :: "nat \<Rightarrow> string \<Rightarrow> ingester \<Rightarrow> ingester" where
  "record_party_variation pid raw_name \<sigma> =
     \<sigma>\<lparr>db := (db \<sigma>)\<lparr>party_name_variations :=
            bump_variation (pid, raw_name) (party_name_variations (db \<sigma>))\<rparr>\<rparr>"

definition get_or_create_party :: "string \<Rightarrow> ingester \<Rightarrow> (exc + nat) \<times> ingester" where
  "get_or_create_party party_name \<sigma> =
     (if party_name = [] then (Inl (ValueError ''Party name cannot be empty''), \<sigma>)
      else
        (let normalized = normalize_party_name party_name in
         (case parties_cache \<sigma> normalized of
            Some pid \<Rightarrow> (Inr pid, record_party_variation pid party_name \<sigma>)
          | None \<Rightarrow>
             (case select_id normalized (parties (db \<sigma>)) of
                Some pid \<Rightarrow>
                  (Inr pid, record_party_variation pid party_name
                     (\<sigma>\<lparr>parties_cache := (parties_cache \<sigma>)(normalized \<mapsto> pid)\<rparr>))
              | None \<Rightarrow>
                  (let pid = Suc (party_seq (db \<sigma>)) in
                   (Inr pid, record_party_variation pid party_name
                     (\<sigma>\<lparr>db := (db \<sigma>)\<lparr>parties :=
                                         parties (db \<sigma>) @ [(pid, party_name, normalized)],
                                       party_seq := pid\<rparr>,
                        parties_cache := (parties_cache \<sigma>)(normalized \<mapsto> pid)\<rparr>)))))))"

subsection \<open>RecordProcessor\<close>

text \<open>\<open>v.strip()\<close> and \<open>v.lower()\<close> on a JSON value: only a string has the method.\<close>

definition str_strip :: "json \<Rightarrow> exc + string" where
  "str_strip v = (case v of JStr s \<Rightarrow> Inr (py_strip s) | _ \<Rightarrow> Inl (no_attribute v ''strip''))"

definition str_lower :: "json \<Rightarrow> exc + string" where
  "str_lower v = (case v of JStr s \<Rightarrow> Inr (py_lower s) | _ \<Rightarrow> Inl (no_attribute v ''lower''))"

definition invalid_status :: "string \<Rightarrow> exc" where
  "invalid_status st =
     ValueError (''Invalid status '' @ quote st
                 @ ''. Must be one of: active, closed, pending, dismissed'')"

text \<open>
  The upsert \<open>INSERT INTO cases ... ON CONFLICT (case_number) DO UPDATE ... RETURNING id,
  (xmax = 0)\<close> at time \<open>now\<close>: the id of the row and whether it was inserted. A new
  row takes its id from the sequence and leaves \<open>updated_at\<close> to the column default
  (\<open>None\<close>); an existing row keeps its id, has every other column overwritten and
  \<open>updated_at\<close> stamped. The sequence is advanced by either, as PostgreSQL does.
\<close>

definition upsert_case ::
  "nat \<Rightarrow> string \<Rightarrow> nat \<Rightarrow> json \<Rightarrow> date \<Rightarrow> nat \<Rightarrow> nat option \<Rightarrow> json \<Rightarrow> string \<Rightarrow> store
     \<Rightarrow> (nat \<times> bool) \<times> store" where
  "upsert_case now case_number cid ttl fdate tid jid dtext st s =
     (case cases s case_number of
        None \<Rightarrow>
          (let i = Suc (case_seq s) in
           ((i, True),
            s\<lparr>cases := (cases s)(case_number \<mapsto>
                  \<lparr>case_id = i, court_id = cid, title = ttl, filed_date = fdate,
                   case_type_id = tid, judge_id = jid, docket_text = dtext, status = st,
                   updated_at = None\<rparr>),
              case_seq := i\<rparr>))
      | Some row \<Rightarrow>
          ((case_id row, False),
           s\<lparr>cases := (cases s)(case_number \<mapsto>
                 row\<lparr>court_id := cid, title := ttl, filed_date := fdate,
                     case_type_id := tid, judge_id := jid, docket_text := dtext,
                     status := st, updated_at := Some now\<rparr>),
             case_seq := Suc (case_seq s)\<rparr>))"

definition exc_msg :: "exc \<Rightarrow> string" where
  "exc_msg e = (case e of ValueError m \<Rightarrow> m | AttributeError m \<Rightarrow> m | TypeError m \<Rightarrow> m)"

text \<open>
  The loop over the parsed parties: a party is resolved and linked to the case
  (\<open>ON CONFLICT DO NOTHING\<close>); an exception is caught, noted as a warning, and the loop
  goes on.
\<close>

fun link_parties :: "string \<Rightarrow> nat \<Rightarrow> (string \<times> string) list \<Rightarrow> ingester \<Rightarrow> ingester" where
  "link_parties case_number cid [] \<sigma> = \<sigma>"
| "link_parties case_number cid ((party_name, role) # rest) \<sigma> =
     (case get_or_create_party party_name \<sigma> of
        (Inr pid, \<sigma>1) \<Rightarrow>
          link_parties case_number cid rest
            (\<sigma>1\<lparr>db := (db \<sigma>1)\<lparr>case_parties :=
                      insert (cid, pid, role) (case_parties (db \<sigma>1))\<rparr>\<rparr>)
      | (Inl e, \<sigma>1) \<Rightarrow>
          link_parties case_number cid rest
            (\<sigma>1\<lparr>warnings := warnings \<sigma>1 @
               [''Error processing party for case '' @ case_number @ '': '' @ exc_msg e]\<rparr>))"

text \<open>
  \<open>process_docket\<close> at time \<open>now\<close>. The result is the returned pair (success, action) or
  the exception raised, and the ingester as the call leaves it.
\<close>

definition process_docket ::
  "nat \<Rightarrow> docket \<Rightarrow> ingester \<Rightarrow> (exc + bool \<times> string) \<times> ingester" where
  "process_docket now docket \<sigma> =
     (case str_strip (dget docket ''case_number'' (JStr [])) of
        Inl e \<Rightarrow> (Inl e, \<sigma>)
      | Inr case_number \<Rightarrow>
     if case_number = []
     then (Inl (ValueError ''case_number is required and cannot be empty''), \<sigma>)
     else
     (case parse_date (dget docket ''filed_date'' (JStr [])) of
        Inl e \<Rightarrow> (Inl e, \<sigma>)
      | Inr fdate \<Rightarrow>
     (case get_or_create_court (dget docket ''court'' (JStr [])) \<sigma> of
        (Inl e, \<sigma>1) \<Rightarrow> (Inl e, \<sigma>1)
      | (Inr cid, \<sigma>1) \<Rightarrow>
     (case get_or_create_judge (dget docket ''judge'' JNull) \<sigma>1 of
        (Inl e, \<sigma>2) \<Rightarrow> (Inl e, \<sigma>2)
      | (Inr jid, \<sigma>2) \<Rightarrow>
     (case get_or_create_case_type (dget docket ''case_type'' (JStr ''civil'')) \<sigma>2 of
        (Inl e, \<sigma>3) \<Rightarrow> (Inl e, \<sigma>3)
      | (Inr tid, \<sigma>3) \<Rightarrow>
     (case str_lower (dget docket ''status'' (JStr ''active'')) of
        Inl e \<Rightarrow> (Inl e, \<sigma>3)
      | Inr st \<Rightarrow>
     if st \<in> set [''active'', ''closed'', ''pending'', ''dismissed'']
     then
       (case upsert_case now case_number cid (dget docket ''title'' (JStr [])) fdate tid jid
               (dget docket ''docket_text'' (JStr [])) st (db \<sigma>3) of
          ((caseid, is_inserted), s4) \<Rightarrow>
       (let action = (if is_inserted then ''inserted'' else ''updated'');
            \<sigma>4 = \<sigma>3\<lparr>db := s4, processed_cases := insert case_number (processed_cases \<sigma>3)\<rparr>
        in
        (case parse_parties (dget docket ''parties'' (JStr [])) of
           Inl e \<Rightarrow> (Inl e, \<sigma>4)
         | Inr ps \<Rightarrow>
             if ps = []
             then (Inr (True, action),
                   \<sigma>4\<lparr>warnings := warnings \<sigma>4 @ [''No parties for case '' @ case_number]\<rparr>)
             else (Inr (True, action), link_parties case_number caseid ps \<sigma>4))))
     else (Inl (invalid_status st), \<sigma>3)))))))"

subsection \<open>RunTracker\<close>

definition start_run :: "string \<Rightarrow> string option \<Rightarrow> ingester \<Rightarrow> nat \<times> ingester" where
  "start_run sname suri \<sigma> =
     (let rid = Suc (run_seq (db \<sigma>));
          row = \<lparr>run_run_id = rid, source_name = sname, source_uri = suri, finished = False,
                 total_read = 0, total_inserted = 0, total_updated = 0, total_failed = 0\<rparr>
      in (rid, (commit (\<sigma>\<lparr>db := (db \<sigma>)\<lparr>ingest_runs := ingest_runs (db \<sigma>) @ [row],
                                         run_seq := rid\<rparr>\<rparr>))\<lparr>run_id := Some rid\<rparr>))"

definition finish_run :: "nat \<Rightarrow> nat \<times> nat \<times> nat \<times> nat \<Rightarrow> ingester \<Rightarrow> ingester" where
  "finish_run rid totals \<sigma> =
     (case totals of (rd, ins, upd, fl) \<Rightarrow>
        commit (\<sigma>\<lparr>db := (db \<sigma>)\<lparr>ingest_runs :=
          map (\<lambda>r. if run_run_id r = rid
                    then r\<lparr>finished := True, total_read := rd, total_inserted := ins,
                           total_updated := upd, total_failed := fl\<rparr>
                    else r)
              (ingest_runs (db \<sigma>))\<rparr>\<rparr>))"

text \<open>
  The default path of a run's quarantine log, in the directory \<open>quarantine\<close> (the default
  of \<open>QUARANTINE_DIR\<close>); paths are kept as written, relative to the working directory.
\<close>

definition quarantine_file :: "nat \<Rightarrow> string" where
  "quarantine_file rid = ''quarantine/ingest_run_'' @ digits_of rid @ ''.jsonl''"

text \<open>
  The record hash \<open>sha256_hex(canonical_json(raw_row))\<close> is computed by the standard
  library; the methods that use it take it as the parameter \<open>H\<close>.
\<close>

definition write_quarantine_jsonl ::
  "(docket \<Rightarrow> string) \<Rightarrow> nat \<Rightarrow> docket \<Rightarrow> string \<Rightarrow> string \<Rightarrow> string option \<Rightarrow> ingester
     \<Rightarrow> string \<times> ingester" where
  "write_quarantine_jsonl H rid raw_row error_code why path \<sigma> =
     (let p = (case path of None \<Rightarrow> quarantine_file rid
               | Some q \<Rightarrow> if q = [] then quarantine_file rid else q);
          rec = \<lparr>q_run_id = rid, q_error_code = error_code, q_why = why, q_raw = raw_row,
                 q_record_hash = H raw_row\<rparr>
      in (p, \<sigma>\<lparr>files := (files \<sigma>)(p := files \<sigma> p @ [rec])\<rparr>))"

text \<open>
  \<open>record_error\<close>: the \<open>UPDATE\<close> touches every row of the run with the record's hash;
  when it touched none (\<open>rowcount == 0\<close>) a row is inserted. Then the transaction is
  committed.
\<close>

definition record_error ::
  "(docket \<Rightarrow> string) \<Rightarrow> nat \<Rightarrow> docket \<Rightarrow> string \<Rightarrow> string \<Rightarrow> string option \<Rightarrow> ingester
     \<Rightarrow> ingester" where
  "record_error H rid raw_row error_code error_msg case_number \<sigma> =
     (let h = H raw_row;
          hit = (\<lambda>r. err_run_id r = rid \<and> err_record_hash r = h);
          rows = ingest_errors (db \<sigma>);
          rows' = (if filter hit rows = []
                   then rows @ [\<lparr>err_run_id = rid, err_record_hash = h,
                                  err_case_number = case_number, err_error_code = error_code,
                                  err_error_message = error_msg,
                                  err_retry_count = retry_count_default, err_raw = raw_row\<rparr>]
                   else map (\<lambda>r. if hit r then r\<lparr>err_retry_count := Suc (err_retry_count r)\<rparr>
                                  else r) rows)
      in commit (\<sigma>\<lparr>db := (db \<sigma>)\<lparr>ingest_errors := rows'\<rparr>\<rparr>))"

subsection \<open>Pipeline driver\<close>

text \<open>\<open>needle in s\<close>\<close>

fun contains :: "string \<Rightarrow> string \<Rightarrow> bool" where
  "contains needle [] = (needle = [])"
| "contains needle (c # cs) =
     (if take (length needle) (c # cs) = needle then True else contains needle cs)"

definition determine_error_code :: "exc \<Rightarrow> docket \<Rightarrow> string" where
  "determine_error_code error docket =
     (let error_msg = py_lower (exc_msg error) in
      if contains ''case_number'' error_msg then ''MISSING_CASE_NUMBER''
      else if contains ''filed_date'' error_msg \<or> contains ''date'' error_msg then ''BAD_DATE''
      else if contains ''status'' error_msg then ''STATUS_UNMAPPED''
      else if contains ''court'' error_msg then ''FK_COURT''
      else if contains ''case_type'' error_msg then ''FK_CASE_TYPE''
      else if contains ''judge'' error_msg then ''FK_JUDGE''
      else ''VALIDATION_ERROR'')"

text \<open>
  The two \<open>except\<close> clauses of the loop body, which differ in the error code only. The
  clause reads the case number again with \<open>.strip()\<close>; an exception raised there leaves the
  clause (result \<open>Some\<close>), before anything is written.
\<close>

definition handle_failure ::
  "(docket \<Rightarrow> string) \<Rightarrow> nat \<Rightarrow> docket \<Rightarrow> exc \<Rightarrow> ingester \<Rightarrow> exc option \<times> ingester" where
  "handle_failure H rid docket e \<sigma> =
     (let error_code = (case e of ValueError m \<Rightarrow> determine_error_code e docket
                        | _ \<Rightarrow> ''UNKNOWN'');
          error_msg = exc_msg e
      in
      (case str_strip (dget docket ''case_number'' (JStr [])) of
         Inl e' \<Rightarrow> (Some e', \<sigma>)
       | Inr cn \<Rightarrow>
          (let case_number = (if cn = [] then None else Some cn) in
           (case write_quarantine_jsonl H rid docket error_code error_msg
                   (quarantine_path \<sigma>) \<sigma> of
              (p, \<sigma>1) \<Rightarrow>
                (let \<sigma>2 = record_error H rid docket error_code error_msg case_number
                            (\<sigma>1\<lparr>quarantine_path := Some p\<rparr>)
                 in (None, \<sigma>2\<lparr>c_failed := Suc (c_failed \<sigma>2)\<rparr>))))))"

text \<open>
  The loop \<open>for i, docket in enumerate(dockets, 1)\<close>; \<open>clock i\<close> is the time at which the
  store handles record \<open>i\<close>. The result is \<open>Some\<close> the exception that left the loop, or
  \<open>None\<close> when the loop ran to its end.
\<close>

fun ingest_loop ::
  "(docket \<Rightarrow> string) \<Rightarrow> (nat \<Rightarrow> nat) \<Rightarrow> nat \<Rightarrow> nat \<Rightarrow> docket list \<Rightarrow> ingester
     \<Rightarrow> exc option \<times> ingester" where
  "ingest_loop H clock rid i [] \<sigma> = (None, \<sigma>)"
| "ingest_loop H clock rid i (docket # rest) \<sigma> =
     (case process_docket (clock i) docket (\<sigma>\<lparr>c_read := Suc (c_read \<sigma>)\<rparr>) of
        (Inr (success, action), \<sigma>1) \<Rightarrow>
          (let \<sigma>2 = (if success
                     then (if action = ''inserted'' then \<sigma>1\<lparr>c_inserted := Suc (c_inserted \<sigma>1)\<rparr>
                           else if action = ''updated''
                           then \<sigma>1\<lparr>c_updated := Suc (c_updated \<sigma>1)\<rparr>
                           else \<sigma>1)
                     else \<sigma>1);
               \<sigma>3 = (if i mod 100 = 0 then commit \<sigma>2 else \<sigma>2)
           in ingest_loop H clock rid (Suc i) rest \<sigma>3)
      | (Inl e, \<sigma>1) \<Rightarrow>
          (case handle_failure H rid docket e \<sigma>1 of
             (Some e', \<sigma>2) \<Rightarrow> (Some e', \<sigma>2)
           | (None, \<sigma>2) \<Rightarrow> ingest_loop H clock rid (Suc i) rest \<sigma>2))"

text \<open>\<open>os.path.basename\<close>\<close>

definition basename :: "string \<Rightarrow> string" where
  "basename p = last (split_on (\<lambda>c. c = CHR ''/'') p)"

text \<open>
  \<open>ingest_file\<close>, given the list of dockets that \<open>json.load\<close> read from the file. The
  result is the printed summary (run id and the counters read, inserted, updated, failed),
  or the exception that ended the run after the rollback.
\<close>

definition ingest_file ::
  "(docket \<Rightarrow> string) \<Rightarrow> (nat \<Rightarrow> nat) \<Rightarrow> string \<Rightarrow> string option \<Rightarrow> docket list \<Rightarrow> ingester
     \<Rightarrow> (exc + nat \<times> nat \<times> nat \<times> nat \<times> nat) \<times> ingester" where
  "ingest_file H clock json_file_path sname dockets \<sigma> =
     (let sname' = (case sname of None \<Rightarrow> basename json_file_path
                    | Some n \<Rightarrow> if n = [] then basename json_file_path else n);
          \<sigma>0 = \<sigma>\<lparr>c_read := 0, c_inserted := 0, c_updated := 0, c_failed := 0\<rparr>
      in
      (case start_run sname' (Some json_file_path) \<sigma>0 of
         (rid, \<sigma>1) \<Rightarrow>
           (case ingest_loop H clock rid 1 dockets (\<sigma>1\<lparr>quarantine_path := None\<rparr>) of
              (Some e, \<sigma>2) \<Rightarrow> (Inl e, rollback \<sigma>2)
            | (None, \<sigma>2) \<Rightarrow>
                (let totals = (c_read \<sigma>2, c_inserted \<sigma>2, c_updated \<sigma>2, c_failed \<sigma>2);
                     \<sigma>3 = finish_run rid totals (commit \<sigma>2)
                 in (Inr (rid, totals), \<sigma>3)))))"

subsection \<open>Example records\<close>

text \<open>A well-formed record with two parties and no \<open>status\<close> field.\<close>

definition good_docket :: docket where
  "good_docket =
     [''case_number'' \<mapsto> JStr ''1:23-cv-1'', ''filed_date'' \<mapsto> JStr ''2024-10-03'',
      ''court'' \<mapsto> JStr ''S.D.N.Y.'', ''parties'' \<mapsto> JStr ''A (plaintiff); B (defendant)'']"


text \<open>A record with an unparseable date.\<close>

definition bad_date_docket :: docket where
  "bad_date_docket =
     [''case_number'' \<mapsto> JStr ''1:23-cv-2'', ''filed_date'' \<mapsto> JStr ''13-40-2024'',
      ''court'' \<mapsto> JStr ''S.D.N.Y.'']"

text \<open>A record whose case number is the JSON value \<open>null\<close>.\<close>

definition null_number_docket :: docket where
  "null_number_docket = [''case_number'' \<mapsto> JNull, ''court'' \<mapsto> JStr ''S.D.N.Y.'']"

text \<open>A record hash and two clocks for the examples, the second for a later run.\<close>

definition example_hash :: "docket \<Rightarrow> string" where
  "example_hash d = py_str (dget d ''case_number'' JNull) @ ''|'' @ py_str (dget d ''status'' JNull)"

definition example_clock :: "nat \<Rightarrow> nat" where
  "example_clock i = 1000 + i"


subsection \<open>Notions used in the proofs\<close>

text \<open>
  The exception with which \<open>process_docket\<close> leaves a record, if any, read off the
  record alone: the checks of the processor in their order, without the store
  (\<open>process_docket_error\<close> and \<open>process_docket_no_error\<close> relate the two).
\<close>

definition court_error :: "json \<Rightarrow> exc option" where
  "court_error v =
     (if falsy v then Some (ValueError ''Court name cannot be empty'')
      else (case v of JStr raw \<Rightarrow> None | _ \<Rightarrow> Some (no_attribute v ''upper'')))"

definition judge_error :: "json \<Rightarrow> exc option" where
  "judge_error v =
     (if falsy v then None
      else (case v of JStr raw \<Rightarrow> None | _ \<Rightarrow> Some (not_a_string v)))"

definition case_type_error :: "json \<Rightarrow> exc option" where
  "case_type_error v =
     (if falsy v then Some (ValueError ''Case type cannot be empty'')
      else (case v of JStr raw \<Rightarrow> None | _ \<Rightarrow> Some (no_attribute v ''lower'')))"

definition status_error :: "json \<Rightarrow> exc option" where
  "status_error v =
     (case str_lower v of
        Inl e \<Rightarrow> Some e
      | Inr st \<Rightarrow> if st \<in> set [''active'', ''closed'', ''pending'', ''dismissed'']
                  then None else Some (invalid_status st))"

definition parties_error :: "json \<Rightarrow> exc option" where
  "parties_error v = (case parse_parties v of Inl e \<Rightarrow> Some e | Inr ps \<Rightarrow> None)"

definition docket_error :: "docket \<Rightarrow> exc option" where
  "docket_error docket =
     (case str_strip (dget docket ''case_number'' (JStr [])) of
        Inl e \<Rightarrow> Some e
      | Inr cn \<Rightarrow>
          if cn = [] then Some (ValueError ''case_number is required and cannot be empty'')
          else first_some
            [case parse_date (dget docket ''filed_date'' (JStr [])) of
               Inl e \<Rightarrow> Some e | Inr d \<Rightarrow> None,
             court_error (dget docket ''court'' (JStr [])),
             judge_error (dget docket ''judge'' JNull),
             case_type_error (dget docket ''case_type'' (JStr ''civil'')),
             status_error (dget docket ''status'' (JStr ''active'')),
             parties_error (dget docket ''parties'' (JStr []))])"

text \<open>
  The checks that \<open>process_docket\<close> makes before the upsert, in their order, and the
  first of them that a record fails, with the exception raised there.
\<close>

datatype check =
  Check_number | Check_date | Check_court | Check_judge | Check_case_type | Check_status

definition failing_check :: "docket \<Rightarrow> (check \<times> exc) option" where
  "failing_check docket =
     (case str_strip (dget docket ''case_number'' (JStr [])) of
        Inl e \<Rightarrow> Some (Check_number, e)
      | Inr cn \<Rightarrow>
          if cn = []
          then Some (Check_number, ValueError ''case_number is required and cannot be empty'')
          else first_some
            [case parse_date (dget docket ''filed_date'' (JStr [])) of
               Inl e \<Rightarrow> Some (Check_date, e) | Inr d \<Rightarrow> None,
             map_option (Pair Check_court) (court_error (dget docket ''court'' (JStr []))),
             map_option (Pair Check_judge) (judge_error (dget docket ''judge'' JNull)),
             map_option (Pair Check_case_type)
               (case_type_error (dget docket ''case_type'' (JStr ''civil''))),
             map_option (Pair Check_status)
               (status_error (dget docket ''status'' (JStr ''active'')))])"

text \<open>The part of the ingester that belongs to the driver and the run tracker.\<close>

definition driver_view ::
  "ingester \<Rightarrow> error_row list \<times> run_row list \<times> nat \<times> (string \<Rightarrow> qline list) \<times> string option
     \<times> (nat \<times> nat \<times> nat \<times> nat) \<times> store \<times> nat option" where
  "driver_view \<sigma> =
     (ingest_errors (db \<sigma>), ingest_runs (db \<sigma>), run_seq (db \<sigma>), files \<sigma>,
      quarantine_path \<sigma>, (c_read \<sigma>, c_inserted \<sigma>, c_updated \<sigma>, c_failed \<sigma>),
      committed \<sigma>, run_id \<sigma>)"

text \<open>
  The ids that a lookup by key finds in the entity tables of a store, as maps.
\<close>

definition court_ids :: "store \<Rightarrow> string \<Rightarrow> nat option" where
  "court_ids s key = select_id key (courts s)"

definition judge_ids :: "store \<Rightarrow> string \<Rightarrow> nat option" where
  "judge_ids s key = select_id key (judges s)"

definition type_ids :: "store \<Rightarrow> string \<Rightarrow> nat option" where
  "type_ids s key = select_type_id key (case_types s)"

definition party_ids :: "store \<Rightarrow> string \<Rightarrow> nat option" where
  "party_ids s key = select_id key (parties s)"

definition case_ids :: "store \<Rightarrow> string \<Rightarrow> nat option" where
  "case_ids s cn = map_option case_id (cases s cn)"

text \<open>The caches agree with the store: a cached id is the id the store finds.\<close>

definition cache_ok :: "ingester \<Rightarrow> bool" where
  "cache_ok \<sigma> \<longleftrightarrow>
     courts_cache \<sigma> \<subseteq>\<^sub>m court_ids (db \<sigma>) \<and> judges_cache \<sigma> \<subseteq>\<^sub>m judge_ids (db \<sigma>)
   \<and> case_types_cache \<sigma> \<subseteq>\<^sub>m type_ids (db \<sigma>) \<and> parties_cache \<sigma> \<subseteq>\<^sub>m party_ids (db \<sigma>)"

text \<open>
  A later store: every key keeps the id it has, every case number keeps its case id, and
  no party link is lost.
\<close>

definition store_le :: "store \<Rightarrow> store \<Rightarrow> bool" where
  "store_le s s' \<longleftrightarrow>
     court_ids s \<subseteq>\<^sub>m court_ids s' \<and> judge_ids s \<subseteq>\<^sub>m judge_ids s'
   \<and> type_ids s \<subseteq>\<^sub>m type_ids s' \<and> party_ids s \<subseteq>\<^sub>m party_ids s'
   \<and> case_ids s \<subseteq>\<^sub>m case_ids s' \<and> case_parties s \<subseteq> case_parties s'"







section \<open>Properties\<close>

subsection \<open>Characters and whitespace\<close>

lemma to_lower_id: "c \<notin> set ''ABCDEFGHIJKLMNOPQRSTUVWXYZ'' \<Longrightarrow> to_lower c = c"
proof -
  assume "c \<notin> set ''ABCDEFGHIJKLMNOPQRSTUVWXYZ''"
  then have "map_of (zip ''ABCDEFGHIJKLMNOPQRSTUVWXYZ'' ''abcdefghijklmnopqrstuvwxyz'') c = None"
    by (subst map_of_zip_is_None) simp_all
  then show ?thesis by (simp only: to_lower_def option.case)
qed

lemma to_lower_cases:
  "to_lower d = d \<or> to_lower d \<in> set ''abcdefghijklmnopqrstuvwxyz''"
proof (cases "map_of (zip ''ABCDEFGHIJKLMNOPQRSTUVWXYZ'' ''abcdefghijklmnopqrstuvwxyz'') d")
  case None
  then show ?thesis by (simp only: to_lower_def option.case simp_thms)
next
  case (Some x)
  then have "x \<in> set ''abcdefghijklmnopqrstuvwxyz''"
    by (meson map_of_SomeD set_zip_rightD)
  with Some show ?thesis by (simp only: to_lower_def option.case simp_thms)
qed

lemma to_lower_dot: "to_lower d = CHR ''.'' \<Longrightarrow> d = CHR ''.''"
  using to_lower_cases[of d] by auto

lemma is_space_not_upper: "is_space c \<Longrightarrow> c \<notin> set ''ABCDEFGHIJKLMNOPQRSTUVWXYZ''"
  unfolding is_space_def by (elim disjE | simp)+

lemma is_space_lower: "is_space c \<Longrightarrow> to_lower c = c"
  by (rule to_lower_id) (rule is_space_not_upper)

lemma lower_not_space: "to_lower x = c \<Longrightarrow> is_space c = False \<Longrightarrow> is_space x = False"
  using is_space_lower by fastforce

lemma split_ws_spaces: "list_all is_space ws \<Longrightarrow> split_ws [] (ws @ r) = split_ws [] r"
  by (induction ws) auto

lemma split_ws_dropWhile: "split_ws [] (dropWhile is_space x) = split_ws [] x"
  by (induction x) auto

lemma spaces1_run:
  "ws \<noteq> [] \<Longrightarrow> list_all is_space ws \<Longrightarrow> spaces1 (ws @ r) = Some (dropWhile is_space r)"
  by (cases ws) (auto simp: spaces1_def dropWhile_append3 list_all_iff dropWhile_append)

lemma ci_prefix_suffix: "ci_prefix p s = Some r \<Longrightarrow> \<exists>q. s = q @ r"
  by (auto simp: ci_prefix_def split: if_splits intro: exI[of _ "take (length p) s"])

lemma spaces1_suffix: "spaces1 s = Some r \<Longrightarrow> \<exists>q. s = q @ r"
  apply (auto simp: spaces1_def split: list.splits if_splits)
  by (metis append_Cons takeWhile_dropWhile_id)

lemma not_space_dot: "is_space CHR ''.'' = False"
  by (simp add: is_space_def)

lemma honorific_cases:
  assumes "py_lower h \<in> set [''hon'', ''hon.'', ''judge'', ''justice'']"
  obtains (hon) x y z where "h = [x, y, z]" "to_lower x = CHR ''h''" "to_lower y = CHR ''o''"
      "to_lower z = CHR ''n''"
  | (hon_dot) x y z where "h = [x, y, z, CHR ''.'']" "to_lower x = CHR ''h''"
      "to_lower y = CHR ''o''" "to_lower z = CHR ''n''"
  | (judge) a b x d e where "h = [a, b, x, d, e]" "to_lower a = CHR ''j''"
      "to_lower b = CHR ''u''" "to_lower x = CHR ''d''" "to_lower d = CHR ''g''"
      "to_lower e = CHR ''e''"
  | (justice) a b x d e f g where "h = [a, b, x, d, e, f, g]" "to_lower a = CHR ''j''"
      "to_lower b = CHR ''u''" "to_lower x = CHR ''s''" "to_lower d = CHR ''t''"
      "to_lower e = CHR ''i''" "to_lower f = CHR ''c''" "to_lower g = CHR ''e''"
proof -
  from assms consider "py_lower h = ''hon''" | "py_lower h = ''hon.''"
    | "py_lower h = ''judge''" | "py_lower h = ''justice''" by auto
  then show ?thesis
  proof cases
    case 1
    then show ?thesis using hon by (auto simp: py_lower_def map_eq_Cons_conv)
  next
    case 2
    then show ?thesis using hon_dot to_lower_dot by (auto simp: py_lower_def map_eq_Cons_conv)
  next
    case 3
    then show ?thesis using judge by (auto simp: py_lower_def map_eq_Cons_conv)
  next
    case 4
    then show ?thesis using justice by (auto simp: py_lower_def map_eq_Cons_conv)
  qed
qed

lemma title_match_honorific:
  assumes h: "py_lower h \<in> set [''hon'', ''hon.'', ''judge'', ''justice'']"
    and ws: "ws \<noteq> []" "list_all is_space ws"
  shows "title_match (h @ ws @ rest) = Some (dropWhile is_space rest)"
proof -
  obtain c cs where wscs: "ws = c # cs" and c: "is_space c"
    using ws by (cases ws) auto
  have cdot: "c \<noteq> CHR ''.''" using c not_space_dot by auto
  note sp = spaces1_run[OF ws, of rest]
  from h show ?thesis
  proof (cases rule: honorific_cases)
    case hon
    then show ?thesis using sp cdot wscs
      by (simp add: title_match_def ci_prefix_def py_lower_def)
  next
    case hon_dot
    then show ?thesis using sp
      by (simp add: title_match_def ci_prefix_def py_lower_def)
  next
    case judge
    then show ?thesis using sp
      by (simp add: title_match_def ci_prefix_def py_lower_def)
  next
    case justice
    then show ?thesis using sp
      by (simp add: title_match_def ci_prefix_def py_lower_def)
  qed
qed



lemma title_match_bare:
  assumes h: "py_lower h \<in> set [''hon'', ''hon.'', ''judge'', ''justice'']"
  shows "title_match h = None"
  using h
  by (cases rule: honorific_cases)
     (simp_all add: title_match_def ci_prefix_def py_lower_def spaces1_def not_space_dot)

lemma honorific_no_space:
  assumes h: "py_lower h \<in> set [''hon'', ''hon.'', ''judge'', ''justice'']"
  shows "py_split h = [h]"
proof -
  have ns: "\<And>x c. to_lower x = c \<Longrightarrow> c \<in> set ''honjudgestic'' \<Longrightarrow> is_space x = False"
    by (rule lower_not_space) (auto simp: is_space_def)
  from h show ?thesis
    by (cases rule: honorific_cases) (simp_all add: py_split_def ns not_space_dot)
qed

lemma first_some_mem: "first_some xs = Some y \<Longrightarrow> Some y \<in> set xs"
  by (induction xs rule: first_some.induct) auto

lemma ci_prefix_spaces1_suffix:
  "(case ci_prefix p s of None \<Rightarrow> None | Some r \<Rightarrow> spaces1 r) = Some r' \<Longrightarrow> \<exists>q. s = q @ r'"
proof -
  assume a: "(case ci_prefix p s of None \<Rightarrow> None | Some r \<Rightarrow> spaces1 r) = Some r'"
  then obtain r where r: "ci_prefix p s = Some r" "spaces1 r = Some r'"
    by (cases "ci_prefix p s") auto
  from ci_prefix_suffix[OF r(1)] spaces1_suffix[OF r(2)] show ?thesis
    by (metis append.assoc)
qed

lemma hon_dot_suffix:
  "(case ci_prefix p s of None \<Rightarrow> None
    | Some r \<Rightarrow> (case r of [] \<Rightarrow> None
                 | c # cs \<Rightarrow> if c = CHR ''.'' then spaces1 cs else None)) = Some r'
   \<Longrightarrow> \<exists>q. s = q @ r'"
proof -
  assume a: "(case ci_prefix p s of None \<Rightarrow> None
    | Some r \<Rightarrow> (case r of [] \<Rightarrow> None
                 | c # cs \<Rightarrow> if c = CHR ''.'' then spaces1 cs else None)) = Some r'"
  then obtain r where r: "ci_prefix p s = Some r"
    by (cases "ci_prefix p s") auto
  with a obtain cs where cs: "r = CHR ''.'' # cs" "spaces1 cs = Some r'"
    by (cases r) (auto split: if_splits)
  from ci_prefix_suffix[OF r] spaces1_suffix[OF cs(2)] cs(1) show ?thesis
    by (metis append.assoc append_Cons append_Nil)
qed

lemma title_match_suffix: "title_match s = Some r \<Longrightarrow> \<exists>q. s = q @ r"
proof -
  assume "title_match s = Some r"
  from first_some_mem[OF this[unfolded title_match_def]]
  consider
    "(case ci_prefix ''hon'' s of None \<Rightarrow> None
      | Some r \<Rightarrow> (case r of [] \<Rightarrow> None
                 | c # cs \<Rightarrow> if c = CHR ''.'' then spaces1 cs else None)) = Some r"
  | "(case ci_prefix ''hon'' s of None \<Rightarrow> None | Some r \<Rightarrow> spaces1 r) = Some r"
  | "(case ci_prefix ''judge'' s of None \<Rightarrow> None | Some r \<Rightarrow> spaces1 r) = Some r"
  | "(case ci_prefix ''justice'' s of None \<Rightarrow> None | Some r \<Rightarrow> spaces1 r) = Some r"
    by (simp only: list.set insert_iff empty_iff) metis
  then show ?thesis
  proof cases
    case 1
    then show ?thesis by (rule hon_dot_suffix)
  next
    case 2
    then show ?thesis by (rule ci_prefix_spaces1_suffix)
  next
    case 3
    then show ?thesis by (rule ci_prefix_spaces1_suffix)
  next
    case 4
    then show ?thesis by (rule ci_prefix_spaces1_suffix)
  qed
qed

lemma split_ws_all_space: "list_all is_space s \<Longrightarrow> split_ws [] s = []"
  by (induction s) auto

lemma normalize_judge_name_blank:
  assumes "list_all is_space s"
  shows "normalize_judge_name s = []"
proof -
  have "list_all is_space (strip_title s)"
  proof (cases "title_match s")
    case None
    then show ?thesis using assms by (simp add: strip_title_def)
  next
    case (Some r)
    then obtain q where "s = q @ r" using title_match_suffix by blast
    then show ?thesis using assms Some by (simp add: strip_title_def)
  qed
  then show ?thesis
    by (simp add: normalize_judge_name_def py_split_def split_ws_all_space py_lower_def)
qed

text \<open>
  What the pattern \<open>^(hon\.?|judge|justice)\s+\<close> does. A leading honorific (\<open>hon\<close>,
  \<open>hon.\<close>, \<open>judge\<close>, \<open>justice\<close> in any mix of cases) followed by at least one
  whitespace character is stripped, the rest has its whitespace collapsed and is
  lower-cased; an honorific followed by whitespace only, and an input that is empty or all
  whitespace, give the empty key; an honorific that nothing follows is not matched by the
  pattern, and its key is the honorific in lower case.
\<close>

lemma normalize_judge_name_honorific:
  assumes "py_lower h \<in> set [''hon'', ''hon.'', ''judge'', ''justice'']"
    and "ws \<noteq> []" and "list_all is_space ws" and "list_all is_space s"
  shows "normalize_judge_name (h @ ws @ rest) = py_lower (py_join '' '' (py_split rest))
       \<and> normalize_judge_name (h @ ws) = []
       \<and> normalize_judge_name s = []
       \<and> normalize_judge_name h = py_lower h"
proof -
  have hne: "h \<noteq> []" using assms(1) by (auto simp: py_lower_def)
  have a: "normalize_judge_name (h @ ws @ r) = py_lower (py_join '' '' (py_split r))" for r
    using title_match_honorific[OF assms(1-3), of r] hne
    by (simp add: normalize_judge_name_def strip_title_def py_split_def split_ws_dropWhile)
  have b: "normalize_judge_name (h @ ws) = []"
    using a[of "[]"] by (simp add: py_split_def py_lower_def)
  have d: "normalize_judge_name h = py_lower h"
    using title_match_bare[OF assms(1)] honorific_no_space[OF assms(1)] hne
    by (simp add: normalize_judge_name_def strip_title_def)
  show ?thesis using a b d normalize_judge_name_blank[OF assms(4)] by blast
qed

lemma judge_title_example:
  "normalize_judge_name ''Judge'' = ''judge''" "normalize_judge_name ''Judge '' = []"
  "normalize_judge_name ''Judge Sarah Chen'' = ''sarah chen''"
  by (simp_all add: normalize_judge_name_def strip_title_def title_match_def ci_prefix_def
        py_lower_def to_lower_def spaces1_def is_space_def py_split_def)

subsection \<open>Date resolution\<close>

lemmas date_defs = parse_date_def py_strip_def is_space_def strptime_def fmt_iso_def
  year_digits_def is_digit_def digit_val_def month_digits_def day_digits_def make_date_def
  days_in_month_def is_leap_def mdy_numeric_def digits12_def dash_or_slash_def fmt_abbr_def
  fmt_full_def month_abbrs_def month_names_def ci_prefix_def py_lower_def to_lower_def
  blank_matches_def fmt_slash_def fmt_dash_def py_repr_def quote_def Let_def

text \<open>
  Claim C5. The five example dates resolve to the calendar dates the specification gives;
  \<open>13-40-2024\<close> matches the numeric pattern and fails in the date constructor, and the
  empty string and an absent value (\<open>None\<close>) fail as missing. Every failure is a
  \<open>ValueError\<close>.
\<close>

theorem parse_date_examples:
  "parse_date (JStr ''10-3-2024'') = Inr (Date 2024 10 3)
 \<and> parse_date (JStr ''Oct 3, 2024'') = Inr (Date 2024 10 3)
 \<and> parse_date (JStr ''October 3, 2024'') = Inr (Date 2024 10 3)
 \<and> parse_date (JStr ''2024-10-03'') = Inr (Date 2024 10 3)
 \<and> parse_date (JStr ''03/15/2023'') = Inr (Date 2023 3 15)
 \<and> parse_date (JStr ''13-40-2024'') =
       Inl (ValueError (''filed_date parse failed (mdy numeric): '' @ py_repr ''13-40-2024''
                        @ '': month must be in 1..12''))
 \<and> parse_date (JStr []) = Inl (ValueError ''filed_date missing'')
 \<and> parse_date JNull = Inl (ValueError ''filed_date missing'')"
  by (intro conjI) (simp_all add: date_defs)

subsection \<open>Party parsing\<close>

lemma first_some_map:
  "first_some (map f xs) = Some y \<Longrightarrow> \<exists>x \<in> set xs. f x = Some y"
  by (induction xs) (auto split: option.splits elim: first_some.elims)

lemma ci_prefix_lower_take: "ci_prefix p s = Some r \<Longrightarrow> py_lower (take (length p) s) = p"
  by (simp add: ci_prefix_def split: if_splits)

lemma role_at_token: "role_at s = Some g \<Longrightarrow> py_lower g \<in> set role_tokens"
proof -
  assume a: "role_at s = Some g"
  then obtain c r where s: "s = c # r" "c = CHR ''(''"
    by (cases s) (auto simp: role_at_def split: if_splits)
  with a obtain tok where tok: "tok \<in> set role_tokens"
    "(case ci_prefix tok r of None \<Rightarrow> None
      | Some r' \<Rightarrow> (case r' of [] \<Rightarrow> None
           | b # r'' \<Rightarrow> if b = CHR '')'' then Some (take (length tok) r) else None)) = Some g"
    by (auto simp: role_at_def dest!: first_some_map)
  then obtain r' where r': "ci_prefix tok r = Some r'" "g = take (length tok) r"
    by (cases "ci_prefix tok r") (auto split: list.splits if_splits)
  from ci_prefix_lower_take[OF r'(1)] r'(2) tok(1) show ?thesis by simp
qed

lemma role_search_token: "role_search s = Some g \<Longrightarrow> py_lower g \<in> set role_tokens"
  by (induction s) (auto split: option.splits dest: role_at_token)

lemma singular_role:
  "role0 \<in> set role_tokens \<Longrightarrow>
   (if ends_with_s role0 then butlast role0 else role0) \<in> set roles"
  unfolding role_tokens_def roles_def
  by (elim disjE | simp add: ends_with_s_def)+

lemma parse_section_roles: "list_all (\<lambda>(n, r). r \<in> set roles) (parse_section section0)"
proof (cases "role_search (py_strip section0)")
  case None
  then show ?thesis by (simp add: parse_section_def Let_def list_all_iff roles_def)
next
  case (Some g)
  from singular_role[OF role_search_token[OF Some]] Some
  show ?thesis by (simp add: parse_section_def Let_def list_all_iff)
qed

lemma parse_parties_str:
  "\<exists>ps. parse_parties (JStr s) = Inr ps \<and> list_all (\<lambda>(n, r). r \<in> set roles) ps"
  using parse_section_roles
  by (auto simp: parse_parties_def list_all_iff)

lemmas party_defs = parse_parties_def parse_section_def comma_names_def py_strip_def
  is_space_def role_at_def role_tokens_def ci_prefix_def py_lower_def to_lower_def
  ends_with_s_def strip_parens.simps Let_def

lemma parse_parties_example:
  "parse_parties (JStr ''John Smith (plaintiff); Acme Corp, Jane Doe (defendants)'') =
     Inr [(''John Smith'', ''plaintiff''), (''Acme Corp'', ''defendant''),
          (''Jane Doe'', ''defendant'')]"
  by (simp add: party_defs)

text \<open>
  Claim C8. The example party string parses to the three pairs of the specification, in
  order; and on every string the parser returns a list (the empty list on the empty
  string), never an exception, with every name tagged by one of the five roles.
\<close>

theorem parse_parties_never_fails:
  "parse_parties (JStr ''John Smith (plaintiff); Acme Corp, Jane Doe (defendants)'') =
     Inr [(''John Smith'', ''plaintiff''), (''Acme Corp'', ''defendant''),
          (''Jane Doe'', ''defendant'')]
   \<and> parse_parties (JStr []) = Inr []
   \<and> (\<forall>s. \<exists>ps. parse_parties (JStr s) = Inr ps
                \<and> list_all (\<lambda>(n, r). r \<in> set roles) ps)"
  using parse_parties_example parse_parties_str
  by (simp add: parse_parties_def)

subsection \<open>Entity resolution\<close>

lemmas resolver_defs = get_or_create_court_def get_or_create_judge_def
  get_or_create_case_type_def get_or_create_party_def record_court_variation_def
  record_judge_variation_def record_party_variation_def

lemma court_blank: "normalize_court_name ''. .'' = []"
  by (simp add: normalize_court_name_def py_upper_def to_upper_def is_space_def)

lemma party_blank: "normalize_party_name ''  '' = []"
  by (simp add: normalize_party_name_def py_split_def py_lower_def py_strip_def is_space_def)

lemma type_blank: "py_strip (py_lower '' '') = []"
  by (simp add: py_lower_def py_strip_def is_space_def to_lower_def)

text \<open>
  Claim C3 on the code: a court name of periods and blanks, a party name of blanks and a
  case type of one blank have the empty key, and the resolver of each inserts an entity row
  with that key and returns its id, where the claim has it fail. Only the empty raw string
  is rejected (\<open>empty_name_rejected\<close>); the judge resolver alone checks the normalized
  key (\<open>judge_blank_key\<close>).
\<close>

theorem blank_key_creates_entity:
  "normalize_court_name ''. .'' = []
   \<and> fst (get_or_create_court (JStr ''. .'') (new_ingester empty_store)) = Inr 1
   \<and> courts (db (snd (get_or_create_court (JStr ''. .'') (new_ingester empty_store))))
       = [(1, ''. .'', [])]
   \<and> normalize_party_name ''  '' = []
   \<and> fst (get_or_create_party ''  '' (new_ingester empty_store)) = Inr 1
   \<and> parties (db (snd (get_or_create_party ''  '' (new_ingester empty_store))))
       = [(1, ''  '', [])]
   \<and> py_strip (py_lower '' '') = []
   \<and> fst (get_or_create_case_type (JStr '' '') (new_ingester empty_store)) = Inr 1
   \<and> case_types (db (snd (get_or_create_case_type (JStr '' '') (new_ingester empty_store))))
       = [(1, [])]"
  by (simp add: court_blank party_blank type_blank resolver_defs new_ingester_def
        empty_store_def select_id_def select_type_id_def Let_def)

lemma empty_name_rejected:
  "get_or_create_court (JStr []) \<sigma> = (Inl (ValueError ''Court name cannot be empty''), \<sigma>)"
  "get_or_create_party [] \<sigma> = (Inl (ValueError ''Party name cannot be empty''), \<sigma>)"
  "get_or_create_case_type (JStr []) \<sigma> = (Inl (ValueError ''Case type cannot be empty''), \<sigma>)"
  by (simp_all add: resolver_defs)

lemma judge_blank_key:
  "normalize_judge_name raw = [] \<Longrightarrow> get_or_create_judge (JStr raw) \<sigma> = (Inr None, \<sigma>)"
  by (simp add: resolver_defs)

text \<open>
  Claim C4 on the code: the string \<open>Judge\<close> alone, which consists only of an honorific
  token, gets the key \<open>judge\<close> and not the empty key, while \<open>Judge\<close> followed by a
  blank gets the empty key, and \<open>Judge Sarah Chen\<close>, the example of the docstring, has
  the title removed. The judge resolver takes an empty key for a record without a judge;
  for the string \<open>Judge\<close> it creates a judge of that name, with a name variation.
\<close>

theorem bare_title_creates_judge:
  "normalize_judge_name ''Judge'' = ''judge''
   \<and> normalize_judge_name ''Judge '' = []
   \<and> normalize_judge_name ''Judge Sarah Chen'' = ''sarah chen''
   \<and> get_or_create_judge (JStr ''Judge '') (new_ingester empty_store)
       = (Inr None, new_ingester empty_store)
   \<and> fst (get_or_create_judge (JStr ''Judge'') (new_ingester empty_store)) = Inr (Some 1)
   \<and> judges (db (snd (get_or_create_judge (JStr ''Judge'') (new_ingester empty_store))))
       = [(1, ''Judge'', ''judge'')]
   \<and> judge_name_variations
         (db (snd (get_or_create_judge (JStr ''Judge'') (new_ingester empty_store))))
         (1, ''Judge'') = Some seen_count_default"
  by (simp add: judge_title_example resolver_defs new_ingester_def empty_store_def
        select_id_def bump_variation_def Let_def)

lemma bump_twice:
  "\<exists>n. bump_variation (i, a) vars (i, a) = Some n
     \<and> bump_variation (i, b) (bump_variation (i, a) vars) (i, a)
         = Some (if a = b then Suc n else n)"
  by (simp add: bump_variation_def)

lemma bump_present: "\<exists>m. bump_variation k vars k = Some m"
  by (simp add: bump_variation_def)

lemma court_twice:
  assumes "a \<noteq> []" and "b \<noteq> []" and "normalize_court_name a = normalize_court_name b"
  shows "\<exists>cid \<sigma>1 \<sigma>2.
           get_or_create_court (JStr a) \<sigma> = (Inr cid, \<sigma>1)
         \<and> get_or_create_court (JStr b) \<sigma>1 = (Inr cid, \<sigma>2)
         \<and> court_name_variations (db \<sigma>1)
             = bump_variation (cid, a) (court_name_variations (db \<sigma>))
         \<and> court_name_variations (db \<sigma>2)
             = bump_variation (cid, b) (court_name_variations (db \<sigma>1))"
  using assms
  by (auto simp: resolver_defs Let_def split: option.splits)

lemma judge_twice:
  assumes "normalize_judge_name a \<noteq> []" and "normalize_judge_name a = normalize_judge_name b"
  shows "\<exists>jid \<sigma>1 \<sigma>2.
           get_or_create_judge (JStr a) \<sigma> = (Inr (Some jid), \<sigma>1)
         \<and> get_or_create_judge (JStr b) \<sigma>1 = (Inr (Some jid), \<sigma>2)
         \<and> judge_name_variations (db \<sigma>1)
             = bump_variation (jid, a) (judge_name_variations (db \<sigma>))
         \<and> judge_name_variations (db \<sigma>2)
             = bump_variation (jid, b) (judge_name_variations (db \<sigma>1))"
proof -
  have "a \<noteq> []" "b \<noteq> []" using assms by (auto simp: normalize_judge_name_def)
  then show ?thesis using assms
    by (auto simp: resolver_defs Let_def split: option.splits)
qed

lemma party_twice:
  assumes "a \<noteq> []" and "b \<noteq> []" and "normalize_party_name a = normalize_party_name b"
  shows "\<exists>pid \<sigma>1 \<sigma>2.
           get_or_create_party a \<sigma> = (Inr pid, \<sigma>1)
         \<and> get_or_create_party b \<sigma>1 = (Inr pid, \<sigma>2)
         \<and> party_name_variations (db \<sigma>1)
             = bump_variation (pid, a) (party_name_variations (db \<sigma>))
         \<and> party_name_variations (db \<sigma>2)
             = bump_variation (pid, b) (party_name_variations (db \<sigma>1))"
  using assms
  by (auto simp: resolver_defs Let_def split: option.splits)

subsection \<open>Record processing\<close>

text \<open>What the resolvers of a record's court, judge and case type leave alone.\<close>

lemma court_frame:
  "get_or_create_court v \<sigma> = (r, \<sigma>') \<Longrightarrow>
     cases (db \<sigma>') = cases (db \<sigma>) \<and> case_parties (db \<sigma>') = case_parties (db \<sigma>)
   \<and> parties (db \<sigma>') = parties (db \<sigma>)
   \<and> party_name_variations (db \<sigma>') = party_name_variations (db \<sigma>)
   \<and> committed \<sigma>' = committed \<sigma>"
  by (auto simp: resolver_defs Let_def split: if_splits json.splits option.splits)

lemma judge_frame:
  "get_or_create_judge v \<sigma> = (r, \<sigma>') \<Longrightarrow>
     cases (db \<sigma>') = cases (db \<sigma>) \<and> case_parties (db \<sigma>') = case_parties (db \<sigma>)
   \<and> parties (db \<sigma>') = parties (db \<sigma>)
   \<and> party_name_variations (db \<sigma>') = party_name_variations (db \<sigma>)
   \<and> committed \<sigma>' = committed \<sigma>"
  by (auto simp: resolver_defs Let_def split: if_splits json.splits option.splits)

lemma case_type_frame:
  "get_or_create_case_type v \<sigma> = (r, \<sigma>') \<Longrightarrow>
     cases (db \<sigma>') = cases (db \<sigma>) \<and> case_parties (db \<sigma>') = case_parties (db \<sigma>)
   \<and> parties (db \<sigma>') = parties (db \<sigma>)
   \<and> party_name_variations (db \<sigma>') = party_name_variations (db \<sigma>)
   \<and> committed \<sigma>' = committed \<sigma>"
  by (auto simp: resolver_defs Let_def split: if_splits json.splits option.splits)

lemma court_falsy:
  "falsy v \<Longrightarrow> get_or_create_court v \<sigma> = (Inl (ValueError ''Court name cannot be empty''), \<sigma>)"
  by (simp add: resolver_defs)

text \<open>The paths through \<open>process_docket\<close>, one case for each place where it returns.\<close>

lemma process_docket_cases:
  fixes now docket \<sigma>
  defines "number \<equiv> str_strip (dget docket ''case_number'' (JStr []))"
    and "fd \<equiv> parse_date (dget docket ''filed_date'' (JStr []))"
    and "P \<equiv> process_docket now docket \<sigma>"
  obtains
    (bad_number) e where "number = Inl e" "P = (Inl e, \<sigma>)"
  | (no_number) "number = Inr []"
      "P = (Inl (ValueError ''case_number is required and cannot be empty''), \<sigma>)"
  | (bad_date) cn e where "number = Inr cn" "cn \<noteq> []" "fd = Inl e" "P = (Inl e, \<sigma>)"
  | (bad_court) cn fdate e \<sigma>1 where "number = Inr cn" "cn \<noteq> []" "fd = Inr fdate"
      "get_or_create_court (dget docket ''court'' (JStr [])) \<sigma> = (Inl e, \<sigma>1)"
      "P = (Inl e, \<sigma>1)"
  | (bad_judge) cn fdate cid \<sigma>1 e \<sigma>2 where "number = Inr cn" "cn \<noteq> []" "fd = Inr fdate"
      "get_or_create_court (dget docket ''court'' (JStr [])) \<sigma> = (Inr cid, \<sigma>1)"
      "get_or_create_judge (dget docket ''judge'' JNull) \<sigma>1 = (Inl e, \<sigma>2)"
      "P = (Inl e, \<sigma>2)"
  | (bad_type) cn fdate cid \<sigma>1 jid \<sigma>2 e \<sigma>3 where "number = Inr cn" "cn \<noteq> []"
      "fd = Inr fdate"
      "get_or_create_court (dget docket ''court'' (JStr [])) \<sigma> = (Inr cid, \<sigma>1)"
      "get_or_create_judge (dget docket ''judge'' JNull) \<sigma>1 = (Inr jid, \<sigma>2)"
      "get_or_create_case_type (dget docket ''case_type'' (JStr ''civil'')) \<sigma>2 = (Inl e, \<sigma>3)"
      "P = (Inl e, \<sigma>3)"
  | (bad_status) cn fdate cid \<sigma>1 jid \<sigma>2 tid \<sigma>3 e where "number = Inr cn" "cn \<noteq> []"
      "fd = Inr fdate"
      "get_or_create_court (dget docket ''court'' (JStr [])) \<sigma> = (Inr cid, \<sigma>1)"
      "get_or_create_judge (dget docket ''judge'' JNull) \<sigma>1 = (Inr jid, \<sigma>2)"
      "get_or_create_case_type (dget docket ''case_type'' (JStr ''civil'')) \<sigma>2 = (Inr tid, \<sigma>3)"
      "str_lower (dget docket ''status'' (JStr ''active'')) = Inl e
       \<or> (\<exists>st. str_lower (dget docket ''status'' (JStr ''active'')) = Inr st
               \<and> st \<notin> set [''active'', ''closed'', ''pending'', ''dismissed'']
               \<and> e = invalid_status st)"
      "P = (Inl e, \<sigma>3)"
  | (upserted) cn fdate cid \<sigma>1 jid \<sigma>2 tid \<sigma>3 st caseid ins s4 \<sigma>4 where
      "number = Inr cn" "cn \<noteq> []" "fd = Inr fdate"
      "get_or_create_court (dget docket ''court'' (JStr [])) \<sigma> = (Inr cid, \<sigma>1)"
      "get_or_create_judge (dget docket ''judge'' JNull) \<sigma>1 = (Inr jid, \<sigma>2)"
      "get_or_create_case_type (dget docket ''case_type'' (JStr ''civil'')) \<sigma>2 = (Inr tid, \<sigma>3)"
      "str_lower (dget docket ''status'' (JStr ''active'')) = Inr st"
      "st \<in> set [''active'', ''closed'', ''pending'', ''dismissed'']"
      "upsert_case now cn cid (dget docket ''title'' (JStr [])) fdate tid jid
         (dget docket ''docket_text'' (JStr [])) st (db \<sigma>3) = ((caseid, ins), s4)"
      "\<sigma>4 = \<sigma>3\<lparr>db := s4, processed_cases := insert cn (processed_cases \<sigma>3)\<rparr>"
      "(\<exists>e. parse_parties (dget docket ''parties'' (JStr [])) = Inl e \<and> P = (Inl e, \<sigma>4))
       \<or> (parse_parties (dget docket ''parties'' (JStr [])) = Inr []
           \<and> P = (Inr (True, if ins then ''inserted'' else ''updated''),
                  \<sigma>4\<lparr>warnings := warnings \<sigma>4 @ [''No parties for case '' @ cn]\<rparr>))
       \<or> (\<exists>ps. parse_parties (dget docket ''parties'' (JStr [])) = Inr ps \<and> ps \<noteq> []
           \<and> P = (Inr (True, if ins then ''inserted'' else ''updated''),
                  link_parties cn caseid ps \<sigma>4))"
proof (cases number)
  case (Inl e)
  then show ?thesis using bad_number by (simp add: process_docket_def number_def P_def)
next
  case cn: (Inr cn)
  show ?thesis
  proof (cases "cn = []")
    case True
    then show ?thesis using no_number cn by (simp add: process_docket_def number_def P_def)
  next
    case cne: False
    show ?thesis
    proof (cases fd)
      case (Inl e)
      then show ?thesis using bad_date cn cne
        by (simp add: process_docket_def number_def P_def fd_def)
    next
      case d: (Inr fdate)
      obtain r1 \<sigma>1 where c: "get_or_create_court (dget docket ''court'' (JStr [])) \<sigma> = (r1, \<sigma>1)"
        by (cases "get_or_create_court (dget docket ''court'' (JStr [])) \<sigma>")
      show ?thesis
      proof (cases r1)
        case (Inl e)
        then show ?thesis using bad_court[of cn fdate e \<sigma>1] cn cne d c
          by (simp add: process_docket_def number_def P_def fd_def)
      next
        case r1: (Inr cid)
        obtain r2 \<sigma>2 where j: "get_or_create_judge (dget docket ''judge'' JNull) \<sigma>1 = (r2, \<sigma>2)"
          by (cases "get_or_create_judge (dget docket ''judge'' JNull) \<sigma>1")
        show ?thesis
        proof (cases r2)
          case (Inl e)
          then show ?thesis using bad_judge[of cn fdate cid \<sigma>1 e \<sigma>2] cn cne d c r1 j
            by (simp add: process_docket_def number_def P_def fd_def)
        next
          case r2: (Inr jid)
          obtain r3 \<sigma>3 where t:
            "get_or_create_case_type (dget docket ''case_type'' (JStr ''civil'')) \<sigma>2 = (r3, \<sigma>3)"
            by (cases "get_or_create_case_type (dget docket ''case_type'' (JStr ''civil'')) \<sigma>2")
          show ?thesis
          proof (cases r3)
            case (Inl e)
            then show ?thesis using bad_type[of cn fdate cid \<sigma>1 jid \<sigma>2 e \<sigma>3] cn cne d c r1 j r2 t
              by (simp add: process_docket_def number_def P_def fd_def)
          next
            case r3: (Inr tid)
            show ?thesis
            proof (cases "str_lower (dget docket ''status'' (JStr ''active''))")
              case (Inl e)
              then show ?thesis
                using bad_status[of cn fdate cid \<sigma>1 jid \<sigma>2 tid \<sigma>3 e] cn cne d c r1 j r2 t r3
                by (simp add: process_docket_def number_def P_def fd_def)
            next
              case st: (Inr st)
              show ?thesis
              proof (cases "st \<in> set [''active'', ''closed'', ''pending'', ''dismissed'']")
                case False
                then show ?thesis
                  using bad_status[of cn fdate cid \<sigma>1 jid \<sigma>2 tid \<sigma>3 "invalid_status st"]
                    cn cne d c r1 j r2 t r3 st
                  by (simp add: process_docket_def number_def P_def fd_def)
              next
                case True
                obtain caseid ins s4 where u:
                  "upsert_case now cn cid (dget docket ''title'' (JStr [])) fdate tid jid
                     (dget docket ''docket_text'' (JStr [])) st (db \<sigma>3) = ((caseid, ins), s4)"
                  by (metis surj_pair)
                show ?thesis
                  using upserted[of cn fdate cid \<sigma>1 jid \<sigma>2 tid \<sigma>3 st caseid ins s4,
                      OF _ cne _ c[unfolded r1] j[unfolded r2] t[unfolded r3] st True u refl]
                    cn cne d c r1 j r2 t r3 st True u
                  by (cases "parse_parties (dget docket ''parties'' (JStr []))")
                     (simp_all add: process_docket_def number_def P_def fd_def Let_def
                        del: set_simps)
              qed
            qed
          qed
        qed
      qed
    qed
  qed
qed

subsection \<open>Evaluation of the example records\<close>

lemma court_key_example:
  "normalize_court_name ''S.D.N.Y.'' = ''SDNY''" "normalize_court_name ''s.d.n.y'' = ''SDNY''"
  by (simp_all add: normalize_court_name_def py_upper_def to_upper_def is_space_def)

lemma iso_date_example: "parse_date (JStr ''2024-10-03'') = Inr (Date 2024 10 3)"
  by (simp add: date_defs)

lemma bad_date_example: "\<exists>m. parse_date (JStr ''13-40-2024'') = Inl (ValueError m)"
  by (simp add: date_defs)

lemma number_example:
  "str_strip (JStr ''1:23-cv-1'') = Inr ''1:23-cv-1''"
  "str_strip (JStr ''1:23-cv-2'') = Inr ''1:23-cv-2''"
  by (simp_all add: str_strip_def py_strip_def is_space_def)

lemma status_example:
  "str_lower (JStr ''bogus'') = Inr ''bogus''" "str_lower (JStr ''active'') = Inr ''active''"
  by (simp_all add: str_lower_def py_lower_def to_lower_def)

lemma civil_example: "py_strip (py_lower ''civil'') = ''civil''"
  by (simp add: py_lower_def to_lower_def py_strip_def is_space_def)

lemmas example_defs = process_docket_def dget_def court_key_example iso_date_example
  number_example status_example civil_example resolver_defs new_ingester_def empty_store_def
  select_id_def select_type_id_def bump_variation_def Let_def

lemma party_frame:
  "get_or_create_party p \<sigma> = (r, \<sigma>') \<Longrightarrow>
     cases (db \<sigma>') = cases (db \<sigma>) \<and> case_parties (db \<sigma>') = case_parties (db \<sigma>)
   \<and> courts (db \<sigma>') = courts (db \<sigma>) \<and> judges (db \<sigma>') = judges (db \<sigma>)
   \<and> case_types (db \<sigma>') = case_types (db \<sigma>)
   \<and> committed \<sigma>' = committed \<sigma>"
  by (auto simp: resolver_defs Let_def split: if_splits option.splits)

lemma link_parties_cases: "cases (db (link_parties cn cid ps \<sigma>)) = cases (db \<sigma>)"
proof (induction ps arbitrary: \<sigma>)
  case Nil
  then show ?case by simp
next
  case (Cons a ps)
  obtain p role where a: "a = (p, role)" by (cases a)
  obtain r \<sigma>1 where g: "get_or_create_party p \<sigma> = (r, \<sigma>1)"
    by (cases "get_or_create_party p \<sigma>")
  from party_frame[OF g] Cons.IH show ?case
    by (cases r) (simp_all add: a g)
qed

lemma upsert_case_status:
  "upsert_case now cn cid ttl fdate tid jid dtext st s = ((caseid, ins), s4) \<Longrightarrow>
     \<exists>row. cases s4 cn = Some row \<and> status row = st \<and> case_id row = caseid"
  by (auto simp: upsert_case_def Let_def split: option.splits)

lemma parse_date_not_status: "parse_date v \<noteq> Inl (invalid_status st)"
  by (simp add: parse_date_def invalid_status_def Let_def
        split: sum.splits option.splits prod.splits)

lemma court_not_status:
  "get_or_create_court v \<sigma> = (Inl e, \<sigma>1) \<Longrightarrow> e \<noteq> invalid_status st"
  by (auto simp: resolver_defs Let_def invalid_status_def no_attribute_def
        split: if_splits json.splits option.splits)

lemma judge_not_status:
  "get_or_create_judge v \<sigma> = (Inl e, \<sigma>1) \<Longrightarrow> e \<noteq> invalid_status st"
  by (auto simp: resolver_defs Let_def invalid_status_def not_a_string_def
        split: if_splits json.splits option.splits)

lemma case_type_not_status:
  "get_or_create_case_type v \<sigma> = (Inl e, \<sigma>1) \<Longrightarrow> e \<noteq> invalid_status st"
  by (auto simp: resolver_defs Let_def invalid_status_def no_attribute_def
        split: if_splits json.splits option.splits)

lemma str_strip_not_status: "str_strip v \<noteq> Inl (invalid_status st)"
  by (auto simp: str_strip_def invalid_status_def no_attribute_def split: json.splits)

lemma parse_parties_not_status: "parse_parties v \<noteq> Inl (invalid_status st)"
  by (auto simp: parse_parties_def invalid_status_def not_a_string_def split: json.splits)

text \<open>
  Claim C10. A record without a \<open>status\<close> field is never rejected with the status
  error, whatever the status named in the message; and when the processor returns, the case
  row of the record's case number is in the store with status \<open>active\<close>.
\<close>

theorem missing_status_defaults_active:
  assumes "docket ''status'' = None"
  shows "(\<forall>st. fst (process_docket now docket \<sigma>) \<noteq> Inl (invalid_status st))
       \<and> (\<forall>r. fst (process_docket now docket \<sigma>) = Inr r \<longrightarrow>
            (\<exists>cn row. str_strip (dget docket ''case_number'' (JStr [])) = Inr cn
               \<and> cases (db (snd (process_docket now docket \<sigma>))) cn = Some row
               \<and> status row = ''active''))"
proof -
  have st: "str_lower (dget docket ''status'' (JStr ''active'')) = Inr ''active''"
    using assms by (simp add: dget_def status_example)
  show ?thesis
  proof (cases rule: process_docket_cases[of docket now \<sigma>])
    case (bad_number e)
    then show ?thesis using str_strip_not_status by auto
  next
    case no_number
    then show ?thesis by (simp add: invalid_status_def)
  next
    case (bad_date cn e)
    then show ?thesis using parse_date_not_status by auto
  next
    case (bad_court cn fdate e \<sigma>1)
    then show ?thesis using court_not_status by auto
  next
    case (bad_judge cn fdate cid \<sigma>1 e \<sigma>2)
    then show ?thesis using judge_not_status by auto
  next
    case (bad_type cn fdate cid \<sigma>1 jid \<sigma>2 e \<sigma>3)
    then show ?thesis using case_type_not_status by auto
  next
    case (bad_status cn fdate cid \<sigma>1 jid \<sigma>2 tid \<sigma>3 e)
    then show ?thesis using st by simp
  next
    case (upserted cn fdate cid \<sigma>1 jid \<sigma>2 tid \<sigma>3 st' caseid ins s4 \<sigma>4)
    have "st' = ''active''" using upserted(7) st by simp
    with upsert_case_status[OF upserted(9)]
    obtain row where row: "cases s4 cn = Some row" "status row = ''active''" by auto
    from upserted(11) show ?thesis
      using row upserted(1,10) parse_parties_not_status link_parties_cases
      by (elim disjE exE conjE) auto
  qed
qed

theorem missing_status_defaults_active_witness:
  "good_docket ''status'' = None
   \<and> fst (process_docket 0 good_docket (new_ingester empty_store)) = Inr (True, ''inserted'')
   \<and> (\<exists>row. cases (db (snd (process_docket 0 good_docket (new_ingester empty_store))))
              ''1:23-cv-1'' = Some row \<and> status row = ''active'')"
proof -
  have a: "good_docket ''status'' = None" by (simp add: good_docket_def)
  have b: "fst (process_docket 0 good_docket (new_ingester empty_store))
             = Inr (True, ''inserted'')"
    by (simp add: example_defs good_docket_def upsert_case_def party_defs)
  have c: "str_strip (dget good_docket ''case_number'' (JStr [])) = Inr ''1:23-cv-1''"
    by (simp add: dget_def good_docket_def number_example)
  from missing_status_defaults_active[where docket = good_docket and now = 0
      and \<sigma> = "new_ingester empty_store"] a b c
  show ?thesis by auto
qed

lemma judge_key_example:
  "normalize_judge_name ''Hon. Maria Rodriguez'' = ''maria rodriguez''"
  "normalize_judge_name ''Judge Maria Rodriguez'' = ''maria rodriguez''"
  by (simp_all add: normalize_judge_name_def strip_title_def title_match_def ci_prefix_def
        py_lower_def to_lower_def spaces1_def is_space_def py_split_def)

lemma party_key_example:
  "normalize_party_name ''Acme Corp'' = ''acme corp''"
  "normalize_party_name ''ACME  corp'' = ''acme corp''"
  by (simp_all add: normalize_party_name_def py_lower_def to_lower_def is_space_def
        py_split_def py_strip_def)

subsection \<open>The outcome of a record does not depend on the store\<close>

lemma court_result:
  "get_or_create_court v \<sigma> = (Inl e, \<sigma>1) \<Longrightarrow> court_error v = Some e \<and> \<sigma>1 = \<sigma>"
  "get_or_create_court v \<sigma> = (Inr cid, \<sigma>1) \<Longrightarrow> court_error v = None"
  by (auto simp: resolver_defs court_error_def Let_def
        split: if_splits json.splits option.splits)

lemma judge_result:
  "get_or_create_judge v \<sigma> = (Inl e, \<sigma>1) \<Longrightarrow> judge_error v = Some e \<and> \<sigma>1 = \<sigma>"
  "get_or_create_judge v \<sigma> = (Inr jid, \<sigma>1) \<Longrightarrow> judge_error v = None"
  by (auto simp: resolver_defs judge_error_def Let_def
        split: if_splits json.splits option.splits)

lemma case_type_result:
  "get_or_create_case_type v \<sigma> = (Inl e, \<sigma>1) \<Longrightarrow> case_type_error v = Some e \<and> \<sigma>1 = \<sigma>"
  "get_or_create_case_type v \<sigma> = (Inr tid, \<sigma>1) \<Longrightarrow> case_type_error v = None"
  by (auto simp: resolver_defs case_type_error_def Let_def
        split: if_splits json.splits option.splits)

lemma process_docket_outcome:
  "fst (process_docket now docket \<sigma>) =
     (case docket_error docket of
        Some e \<Rightarrow> Inl e
      | None \<Rightarrow> Inr (True,
          if cases (db \<sigma>) (projr (str_strip (dget docket ''case_number'' (JStr [])))) = None
          then ''inserted'' else ''updated''))"
proof (cases rule: process_docket_cases[of docket now \<sigma>])
  case (bad_number e)
  then show ?thesis by (simp add: docket_error_def)
next
  case no_number
  then show ?thesis by (simp add: docket_error_def)
next
  case (bad_date cn e)
  then show ?thesis by (simp add: docket_error_def)
next
  case (bad_court cn fdate e \<sigma>1)
  then show ?thesis using court_result(1)[OF bad_court(4)] by (simp add: docket_error_def)
next
  case (bad_judge cn fdate cid \<sigma>1 e \<sigma>2)
  then show ?thesis using court_result(2)[OF bad_judge(4)] judge_result(1)[OF bad_judge(5)]
    by (simp add: docket_error_def)
next
  case (bad_type cn fdate cid \<sigma>1 jid \<sigma>2 e \<sigma>3)
  then show ?thesis using court_result(2)[OF bad_type(4)] judge_result(2)[OF bad_type(5)]
      case_type_result(1)[OF bad_type(6)]
    by (simp add: docket_error_def)
next
  case (bad_status cn fdate cid \<sigma>1 jid \<sigma>2 tid \<sigma>3 e)
  from bad_status(7) have "status_error (dget docket ''status'' (JStr ''active'')) = Some e"
    by (auto simp: status_error_def simp del: set_simps)
  then show ?thesis using bad_status(1-3,8) court_result(2)[OF bad_status(4)]
      judge_result(2)[OF bad_status(5)] case_type_result(2)[OF bad_status(6)]
    by (simp add: docket_error_def)
next
  case (upserted cn fdate cid \<sigma>1 jid \<sigma>2 tid \<sigma>3 st caseid ins s4 \<sigma>4)
  have se: "status_error (dget docket ''status'' (JStr ''active'')) = None"
    using upserted(7,8) by (simp add: status_error_def del: set_simps)
  have c3: "cases (db \<sigma>3) = cases (db \<sigma>)"
    using court_frame[OF upserted(4)] judge_frame[OF upserted(5)]
      case_type_frame[OF upserted(6)] by simp
  have ins: "ins = (cases (db \<sigma>) cn = None)"
    using upserted(9) c3 by (auto simp: upsert_case_def Let_def split: option.splits)
  from upserted(11) show ?thesis
    using upserted(1-3) court_result(2)[OF upserted(4)] judge_result(2)[OF upserted(5)]
      case_type_result(2)[OF upserted(6)] se ins
    by (elim disjE exE conjE) (simp_all add: docket_error_def parties_error_def)
qed

lemma process_docket_error:
  "fst (process_docket now docket \<sigma>) = Inl e \<longleftrightarrow> docket_error docket = Some e"
  by (simp add: process_docket_outcome split: option.splits)

lemma value_error_number:
  assumes "docket_error docket = Some (ValueError m)"
  shows "\<exists>cn. str_strip (dget docket ''case_number'' (JStr [])) = Inr cn"
  using assms
  by (cases "dget docket ''case_number'' (JStr [])")
     (auto simp: docket_error_def str_strip_def no_attribute_def)

subsection \<open>The driver's part of the state\<close>

lemma resolver_view:
  "get_or_create_court v \<sigma> = (r, \<sigma>') \<Longrightarrow> driver_view \<sigma>' = driver_view \<sigma>"
  "get_or_create_judge v \<sigma> = (r2, \<sigma>') \<Longrightarrow> driver_view \<sigma>' = driver_view \<sigma>"
  "get_or_create_case_type v \<sigma> = (r, \<sigma>') \<Longrightarrow> driver_view \<sigma>' = driver_view \<sigma>"
  "get_or_create_party p \<sigma> = (r, \<sigma>') \<Longrightarrow> driver_view \<sigma>' = driver_view \<sigma>"
  by (auto simp: resolver_defs driver_view_def Let_def
        split: if_splits json.splits option.splits)

lemma link_parties_view: "driver_view (link_parties cn cid ps \<sigma>) = driver_view \<sigma>"
proof (induction ps arbitrary: \<sigma>)
  case Nil
  then show ?case by simp
next
  case (Cons a ps)
  obtain p role where a: "a = (p, role)" by (cases a)
  obtain r \<sigma>1 where g: "get_or_create_party p \<sigma> = (r, \<sigma>1)"
    by (cases "get_or_create_party p \<sigma>")
  have "driver_view (\<sigma>1\<lparr>db := (db \<sigma>1)\<lparr>case_parties := X\<rparr>\<rparr>) = driver_view \<sigma>" for X
    using resolver_view(4)[OF g] by (simp add: driver_view_def)
  moreover have "driver_view (\<sigma>1\<lparr>warnings := W\<rparr>) = driver_view \<sigma>" for W
    using resolver_view(4)[OF g] by (simp add: driver_view_def)
  ultimately show ?case using Cons.IH
    by (cases r) (simp_all add: a g)
qed

lemma upsert_case_view:
  "upsert_case now cn cid ttl fdate tid jid dtext st (db \<sigma>) = (r, s4) \<Longrightarrow>
     driver_view (\<sigma>\<lparr>db := s4, processed_cases := X\<rparr>) = driver_view \<sigma>"
  by (auto simp: upsert_case_def driver_view_def Let_def split: option.splits)

lemma process_docket_view:
  "driver_view (snd (process_docket now docket \<sigma>)) = driver_view \<sigma>"
proof (cases rule: process_docket_cases[of docket now \<sigma>])
  case (bad_number e)
  then show ?thesis by simp
next
  case no_number
  then show ?thesis by simp
next
  case (bad_date cn e)
  then show ?thesis by simp
next
  case (bad_court cn fdate e \<sigma>1)
  then show ?thesis using resolver_view(1)[OF bad_court(4)] by simp
next
  case (bad_judge cn fdate cid \<sigma>1 e \<sigma>2)
  then show ?thesis using resolver_view(1)[OF bad_judge(4)] resolver_view(2)[OF bad_judge(5)]
    by simp
next
  case (bad_type cn fdate cid \<sigma>1 jid \<sigma>2 e \<sigma>3)
  then show ?thesis using resolver_view(1)[OF bad_type(4)] resolver_view(2)[OF bad_type(5)]
      resolver_view(3)[OF bad_type(6)] by simp
next
  case (bad_status cn fdate cid \<sigma>1 jid \<sigma>2 tid \<sigma>3 e)
  then show ?thesis using resolver_view(1)[OF bad_status(4)] resolver_view(2)[OF bad_status(5)]
      resolver_view(3)[OF bad_status(6)] by simp
next
  case (upserted cn fdate cid \<sigma>1 jid \<sigma>2 tid \<sigma>3 st caseid ins s4 \<sigma>4)
  have v3: "driver_view \<sigma>3 = driver_view \<sigma>"
    using resolver_view(1)[OF upserted(4)] resolver_view(2)[OF upserted(5)]
      resolver_view(3)[OF upserted(6)] by simp
  have v4: "driver_view \<sigma>4 = driver_view \<sigma>"
    using upsert_case_view[OF upserted(9)] upserted(10) v3 by simp
  have v5: "driver_view (\<sigma>4\<lparr>warnings := W\<rparr>) = driver_view \<sigma>" for W
    using v4 by (simp add: driver_view_def)
  from upserted(11) show ?thesis using v4 v5 link_parties_view
    by (elim disjE exE conjE) simp_all
qed

lemma driver_view_fields:
  assumes "driver_view \<sigma>' = driver_view \<sigma>"
  shows "ingest_errors (db \<sigma>') = ingest_errors (db \<sigma>)" "ingest_runs (db \<sigma>') = ingest_runs (db \<sigma>)"
    "run_seq (db \<sigma>') = run_seq (db \<sigma>)" "files \<sigma>' = files \<sigma>"
    "quarantine_path \<sigma>' = quarantine_path \<sigma>" "c_read \<sigma>' = c_read \<sigma>"
    "c_inserted \<sigma>' = c_inserted \<sigma>" "c_updated \<sigma>' = c_updated \<sigma>" "c_failed \<sigma>' = c_failed \<sigma>"
    "committed \<sigma>' = committed \<sigma>" "run_id \<sigma>' = run_id \<sigma>"
  using assms by (simp_all add: driver_view_def)

lemmas process_docket_fields = driver_view_fields[OF process_docket_view]

subsection \<open>The failure handler\<close>

lemma handle_failure_raises:
  "str_strip (dget docket ''case_number'' (JStr [])) = Inl e' \<Longrightarrow>
     handle_failure H rid docket e \<sigma> = (Some e', \<sigma>)"
  by (simp add: handle_failure_def Let_def)

lemma handle_failure_counts:
  assumes "handle_failure H rid docket e \<sigma> = (None, \<sigma>')"
  shows "c_read \<sigma>' = c_read \<sigma>" "c_inserted \<sigma>' = c_inserted \<sigma>" "c_updated \<sigma>' = c_updated \<sigma>"
    "c_failed \<sigma>' = Suc (c_failed \<sigma>)"
  using assms
  by (auto simp: handle_failure_def Let_def write_quarantine_jsonl_def record_error_def
        commit_def split: sum.splits)

subsection \<open>The counters of a run\<close>

lemma process_docket_action:
  "fst (process_docket now docket \<sigma>) = Inr (success, action) \<Longrightarrow>
     success \<and> (action = ''inserted'' \<or> action = ''updated'')"
  by (auto simp: process_docket_outcome split: option.splits if_splits)

lemma ingest_loop_counts:
  "ingest_loop H clock rid i dockets \<sigma> = (None, \<sigma>') \<Longrightarrow>
     c_read \<sigma>' + (c_inserted \<sigma> + c_updated \<sigma> + c_failed \<sigma>)
       = c_read \<sigma> + (c_inserted \<sigma>' + c_updated \<sigma>' + c_failed \<sigma>')"
proof (induction dockets arbitrary: i \<sigma>)
  case Nil
  then show ?case by simp
next
  case (Cons d ds)
  let ?\<sigma>0 = "\<sigma>\<lparr>c_read := Suc (c_read \<sigma>)\<rparr>"
  obtain r \<sigma>1 where p: "process_docket (clock i) d ?\<sigma>0 = (r, \<sigma>1)"
    by (cases "process_docket (clock i) d ?\<sigma>0")
  note f = process_docket_fields[of "clock i" d ?\<sigma>0, unfolded p, simplified]
  show ?case
  proof (cases r)
    case (Inl e)
    obtain x \<sigma>2 where h: "handle_failure H rid d e \<sigma>1 = (x, \<sigma>2)"
      by (cases "handle_failure H rid d e \<sigma>1")
    show ?thesis
    proof (cases x)
      case None
      from Cons.prems p Inl h None have "ingest_loop H clock rid (Suc i) ds \<sigma>2 = (None, \<sigma>')"
        by simp
      from Cons.IH[OF this] handle_failure_counts[OF h[unfolded None]] f
      show ?thesis by simp
    next
      case (Some e')
      then show ?thesis using Cons.prems p Inl h by simp
    qed
  next
    case (Inr sa)
    obtain success action where sa: "sa = (success, action)" by (cases sa)
    from process_docket_action[of "clock i" d ?\<sigma>0 success action] p Inr sa
    have act: "success" "action = ''inserted'' \<or> action = ''updated''" by auto
    from act(2) show ?thesis
    proof
      assume a: "action = ''inserted''"
      let ?\<sigma>2 = "\<sigma>1\<lparr>c_inserted := Suc (c_inserted \<sigma>1)\<rparr>"
      let ?\<sigma>3 = "if i mod 100 = 0 then commit ?\<sigma>2 else ?\<sigma>2"
      from Cons.prems p Inr sa act(1) a
      have "ingest_loop H clock rid (Suc i) ds ?\<sigma>3 = (None, \<sigma>')"
        by (simp add: Let_def cong: if_cong)
      from Cons.IH[OF this] f show ?thesis by (simp add: commit_def split: if_splits)
    next
      assume a: "action = ''updated''"
      let ?\<sigma>2 = "\<sigma>1\<lparr>c_updated := Suc (c_updated \<sigma>1)\<rparr>"
      let ?\<sigma>3 = "if i mod 100 = 0 then commit ?\<sigma>2 else ?\<sigma>2"
      from Cons.prems p Inr sa act(1) a
      have "ingest_loop H clock rid (Suc i) ds ?\<sigma>3 = (None, \<sigma>')"
        by (simp add: Let_def cong: if_cong)
      from Cons.IH[OF this] f show ?thesis by (simp add: commit_def split: if_splits)
    qed
  qed
qed

lemma ingest_file_counts:
  assumes "ingest_file H clock path sname dockets \<sigma> = (Inr (rid, rd, ins, upd, fl), \<sigma>')"
  shows "rd = ins + upd + fl"
proof -
  let ?n = "case sname of None \<Rightarrow> basename path | Some n \<Rightarrow> if n = [] then basename path else n"
  let ?\<sigma>0 = "\<sigma>\<lparr>c_read := 0, c_inserted := 0, c_updated := 0, c_failed := 0\<rparr>"
  obtain rid' \<sigma>1 where s: "start_run ?n (Some path) ?\<sigma>0 = (rid', \<sigma>1)"
    by (cases "start_run ?n (Some path) ?\<sigma>0")
  have z: "c_read \<sigma>1 = 0" "c_inserted \<sigma>1 = 0" "c_updated \<sigma>1 = 0" "c_failed \<sigma>1 = 0"
    using s by (auto simp: start_run_def Let_def commit_def)
  obtain x \<sigma>2 where l: "ingest_loop H clock rid' 1 dockets (\<sigma>1\<lparr>quarantine_path := None\<rparr>) = (x, \<sigma>2)"
    by (cases "ingest_loop H clock rid' 1 dockets (\<sigma>1\<lparr>quarantine_path := None\<rparr>)")
  from assms s l have x: "x = None"
    by (cases x) (simp_all add: ingest_file_def Let_def)
  from assms s l x have "rd = c_read \<sigma>2" "ins = c_inserted \<sigma>2" "upd = c_updated \<sigma>2"
    "fl = c_failed \<sigma>2"
    by (simp_all add: ingest_file_def Let_def)
  with ingest_loop_counts[OF l[unfolded x]] z show ?thesis by simp
qed

subsection \<open>Error deduplication\<close>

lemma handle_failure_result:
  fixes H rid d e \<sigma>
  defines "p \<equiv> (case quarantine_path \<sigma> of None \<Rightarrow> quarantine_file rid
                 | Some q \<Rightarrow> if q = [] then quarantine_file rid else q)"
    and "hit \<equiv> (\<lambda>r. err_run_id r = rid \<and> err_record_hash r = H d)"
    and "\<sigma>' \<equiv> snd (handle_failure H rid d e \<sigma>)"
  assumes cn: "str_strip (dget d ''case_number'' (JStr [])) = Inr cn"
  shows "fst (handle_failure H rid d e \<sigma>) = None"
    and "filter hit (ingest_errors (db \<sigma>)) = [] \<Longrightarrow>
           \<exists>row. ingest_errors (db \<sigma>') = ingest_errors (db \<sigma>) @ [row] \<and> hit row
                 \<and> err_retry_count row = retry_count_default"
    and "filter hit (ingest_errors (db \<sigma>)) \<noteq> [] \<Longrightarrow>
           ingest_errors (db \<sigma>') =
             map (\<lambda>r. if hit r then r\<lparr>err_retry_count := Suc (err_retry_count r)\<rparr> else r)
                 (ingest_errors (db \<sigma>))"
    and "files \<sigma>' = (files \<sigma>)(p := files \<sigma> p @
           [\<lparr>q_run_id = rid,
             q_error_code = (case e of ValueError m \<Rightarrow> determine_error_code e d
                             | _ \<Rightarrow> ''UNKNOWN''),
             q_why = exc_msg e, q_raw = d, q_record_hash = H d\<rparr>])"
    and "quarantine_path \<sigma>' = Some p"
  using cn
  by (simp_all add: handle_failure_def Let_def write_quarantine_jsonl_def record_error_def
        commit_def p_def hit_def \<sigma>'_def)

lemma quarantine_file_nonempty: "quarantine_file rid \<noteq> []"
  by (simp add: quarantine_file_def)

lemma bump_hit_rows:
  assumes "filter hit rows = []"
  shows "map (\<lambda>r. if hit r then f r else r) (rows @ [row]) = rows @ [if hit row then f row else row]"
proof -
  have "map (\<lambda>r. if hit r then f r else r) rows = rows"
    using assms by (induction rows) (auto split: if_splits)
  then show ?thesis by simp
qed

text \<open>
  A record that the processor rejects, with whatever exception, and whose case number the
  failure handler can read (it is a string, or absent), submitted twice in one run, from a
  store whose error rows all belong to earlier runs: the run reads two records and fails
  both, the error table then holds exactly one row for the run and the record's hash, with
  \<open>retry_count\<close> 1, and the run's quarantine log has gained two lines, one for each
  occurrence.
\<close>

lemma duplicate_failure_one_error_row:
  assumes bad: "fst (process_docket now d \<sigma>0) = Inl e"
    and cn: "str_strip (dget d ''case_number'' (JStr [])) = Inr cn"
    and fresh: "\<forall>r \<in> set (ingest_errors (db \<sigma>)). err_run_id r \<le> run_seq (db \<sigma>)"
  shows "\<exists>rid \<sigma>' row l1 l2.
           ingest_file H clock path sname [d, d] \<sigma> = (Inr (rid, 2, 0, 0, 2), \<sigma>')
         \<and> filter (\<lambda>r. err_run_id r = rid \<and> err_record_hash r = H d) (ingest_errors (db \<sigma>'))
             = [row]
         \<and> err_retry_count row = 1
         \<and> files \<sigma>' (quarantine_file rid) = files \<sigma> (quarantine_file rid) @ [l1, l2]
         \<and> q_raw l1 = d \<and> q_raw l2 = d"
proof -
  define rid where "rid = Suc (run_seq (db \<sigma>))"
  define hit :: "error_row \<Rightarrow> bool"
    where "hit = (\<lambda>r. err_run_id r = rid \<and> err_record_hash r = H d)"
  define qf where "qf = quarantine_file rid"
  have de: "docket_error d = Some e"
    using bad by (simp add: process_docket_error)
  have fails: "fst (process_docket t d \<tau>) = Inl e" for t \<tau>
    using de by (simp add: process_docket_error)
  let ?n = "case sname of None \<Rightarrow> basename path | Some n \<Rightarrow> if n = [] then basename path else n"
  let ?\<sigma>0 = "\<sigma>\<lparr>c_read := 0, c_inserted := 0, c_updated := 0, c_failed := 0\<rparr>"
  obtain \<sigma>1 where s: "start_run ?n (Some path) ?\<sigma>0 = (rid, \<sigma>1)"
    by (simp add: start_run_def Let_def rid_def)
  have z: "c_read \<sigma>1 = 0"
    using s by (auto simp: start_run_def Let_def commit_def)
  define \<tau>0 where "\<tau>0 = \<sigma>1\<lparr>quarantine_path := None, c_read := Suc 0\<rparr>"
  have t0: "ingest_errors (db \<tau>0) = ingest_errors (db \<sigma>)" "files \<tau>0 = files \<sigma>"
    "quarantine_path \<tau>0 = None" "c_read \<tau>0 = 1" "c_inserted \<tau>0 = 0" "c_updated \<tau>0 = 0"
    "c_failed \<tau>0 = 0"
    using s by (auto simp: start_run_def Let_def commit_def \<tau>0_def)
  \<comment> \<open>the first occurrence\<close>
  define \<tau>1 where "\<tau>1 = snd (process_docket (clock 1) d \<tau>0)"
  have p1: "process_docket (clock 1) d \<tau>0 = (Inl e, \<tau>1)"
    using fails[of "clock 1" \<tau>0] by (simp add: \<tau>1_def prod_eq_iff)
  note f1 = process_docket_fields[of "clock 1" d \<tau>0, folded \<tau>1_def]
  define \<tau>2 where "\<tau>2 = snd (handle_failure H rid d e \<tau>1)"
  have h1: "handle_failure H rid d e \<tau>1 = (None, \<tau>2)"
    using handle_failure_result(1)[OF cn, where H = H and rid = rid and e = e and \<sigma> = \<tau>1] by (simp add: \<tau>2_def prod_eq_iff)
  have nohit: "filter hit (ingest_errors (db \<sigma>)) = []"
    using fresh by (auto simp: hit_def rid_def filter_empty_conv)
  from handle_failure_result(2)[OF cn, where H = H and rid = rid and e = e and \<sigma> = \<tau>1] nohit f1(1) t0(1)
  obtain row where row: "ingest_errors (db \<tau>2) = ingest_errors (db \<sigma>) @ [row]" "hit row"
    "err_retry_count row = retry_count_default"
    by (auto simp: hit_def \<tau>2_def)
  from handle_failure_result(4)[OF cn, where H = H and rid = rid and e = e and \<sigma> = \<tau>1] f1(4,5) t0(2,3)
  obtain l1 where l1: "files \<tau>2 = (files \<sigma>)(qf := files \<sigma> qf @ [l1])" "q_raw l1 = d"
    by (auto simp: \<tau>2_def qf_def)
  have q2: "quarantine_path \<tau>2 = Some qf"
    using handle_failure_result(5)[OF cn, where H = H and rid = rid and e = e and \<sigma> = \<tau>1] f1(5) t0(3) by (simp add: \<tau>2_def qf_def)
  have c2: "c_read \<tau>2 = 1" "c_inserted \<tau>2 = 0" "c_updated \<tau>2 = 0" "c_failed \<tau>2 = 1"
    using handle_failure_counts[OF h1] f1 t0 by simp_all
  \<comment> \<open>the second occurrence\<close>
  define \<tau>3 where "\<tau>3 = snd (process_docket (clock 2) d (\<tau>2\<lparr>c_read := Suc (c_read \<tau>2)\<rparr>))"
  have p2: "process_docket (clock 2) d (\<tau>2\<lparr>c_read := Suc (c_read \<tau>2)\<rparr>) = (Inl e, \<tau>3)"
    using fails[of "clock 2" "\<tau>2\<lparr>c_read := Suc (c_read \<tau>2)\<rparr>"] by (simp add: \<tau>3_def prod_eq_iff)
  note f3 = process_docket_fields[of "clock 2" d "\<tau>2\<lparr>c_read := Suc (c_read \<tau>2)\<rparr>",
      folded \<tau>3_def, simplified]
  define \<tau>4 where "\<tau>4 = snd (handle_failure H rid d e \<tau>3)"
  have h2: "handle_failure H rid d e \<tau>3 = (None, \<tau>4)"
    using handle_failure_result(1)[OF cn, where H = H and rid = rid and e = e and \<sigma> = \<tau>3] by (simp add: \<tau>4_def prod_eq_iff)
  have hit3: "filter hit (ingest_errors (db \<tau>3)) \<noteq> []"
    using row f3(1) by simp
  have e4: "ingest_errors (db \<tau>4) =
      ingest_errors (db \<sigma>) @ [row\<lparr>err_retry_count := Suc (err_retry_count row)\<rparr>]"
  proof -
    have "ingest_errors (db \<tau>4) =
        map (\<lambda>r. if hit r then r\<lparr>err_retry_count := Suc (err_retry_count r)\<rparr> else r)
          (ingest_errors (db \<sigma>) @ [row])"
      using handle_failure_result(3)[OF cn, where H = H and rid = rid and e = e and \<sigma> = \<tau>3]
        hit3 row(1) f3(1)
      by (simp add: hit_def \<tau>4_def)
    also have "\<dots> = ingest_errors (db \<sigma>) @ [row\<lparr>err_retry_count := Suc (err_retry_count row)\<rparr>]"
      using bump_hit_rows[OF nohit,
          of "\<lambda>r. r\<lparr>err_retry_count := Suc (err_retry_count r)\<rparr>" row] row(2)
      by simp
    finally show ?thesis .
  qed
  from handle_failure_result(4)[OF cn, where H = H and rid = rid and e = e and \<sigma> = \<tau>3] f3(4,5) q2 l1 quarantine_file_nonempty
  obtain l2 where l2: "files \<tau>4 qf = files \<sigma> qf @ [l1, l2]" "q_raw l2 = d"
    by (auto simp: \<tau>4_def qf_def)
  have c4: "c_read \<tau>4 = 2" "c_inserted \<tau>4 = 0" "c_updated \<tau>4 = 0" "c_failed \<tau>4 = 2"
    using handle_failure_counts[OF h2] f3 c2 by simp_all
  \<comment> \<open>the run\<close>
  have loop: "ingest_loop H clock rid 1 [d, d] (\<sigma>1\<lparr>quarantine_path := None\<rparr>) = (None, \<tau>4)"
    using p1 h1 p2 h2 c2 z by (simp add: \<tau>0_def numeral_2_eq_2)
  define \<sigma>' where "\<sigma>' = finish_run rid (2, 0, 0, 2) (commit \<tau>4)"
  have res: "ingest_file H clock path sname [d, d] \<sigma> = (Inr (rid, 2, 0, 0, 2), \<sigma>')"
    using s loop c4 by (simp add: ingest_file_def Let_def \<sigma>'_def)
  have fin: "ingest_errors (db \<sigma>') = ingest_errors (db \<tau>4)" "files \<sigma>' = files \<tau>4"
    by (simp_all add: \<sigma>'_def finish_run_def commit_def)
  have "filter hit (ingest_errors (db \<sigma>')) = [row\<lparr>err_retry_count := Suc (err_retry_count row)\<rparr>]"
    using fin e4 nohit row(2) by (simp add: hit_def)
  moreover have "err_retry_count (row\<lparr>err_retry_count := Suc (err_retry_count row)\<rparr>) = 1"
    using row(3) by (simp add: retry_count_default_def)
  ultimately show ?thesis using res fin l2 l1(2)
    unfolding hit_def qf_def
    by (intro exI[of _ rid] exI[of _ \<sigma>'] exI[of _ l1] exI[of _ l2]
          exI[of _ "row\<lparr>err_retry_count := Suc (err_retry_count row)\<rparr>"]) simp
qed

lemma bad_date_run:
  "fst (process_docket now bad_date_docket \<sigma>) =
     Inl (ValueError (''filed_date parse failed (mdy numeric): '' @ py_repr ''13-40-2024''
                      @ '': month must be in 1..12''))"
proof -
  have "parse_date (JStr ''13-40-2024'') =
       Inl (ValueError (''filed_date parse failed (mdy numeric): '' @ py_repr ''13-40-2024''
                        @ '': month must be in 1..12''))"
    by (simp add: date_defs)
  then show ?thesis
    by (simp add: process_docket_def dget_def bad_date_docket_def number_example)
qed

lemma bad_date_number:
  "str_strip (dget bad_date_docket ''case_number'' (JStr [])) = Inr ''1:23-cv-2''"
  by (simp add: dget_def bad_date_docket_def number_example)

lemma duplicate_failure_example:
  "\<exists>rid \<sigma>' row l1 l2.
      ingest_file example_hash example_clock ''dockets.json'' None
        [bad_date_docket, bad_date_docket] (new_ingester empty_store)
        = (Inr (rid, 2, 0, 0, 2), \<sigma>')
    \<and> filter (\<lambda>r. err_run_id r = rid \<and> err_record_hash r = example_hash bad_date_docket)
          (ingest_errors (db \<sigma>')) = [row]
    \<and> err_retry_count row = 1
    \<and> files \<sigma>' (quarantine_file rid)
        = files (new_ingester empty_store) (quarantine_file rid) @ [l1, l2]
    \<and> q_raw l1 = bad_date_docket \<and> q_raw l2 = bad_date_docket"
proof -
  have "\<forall>r \<in> set (ingest_errors (db (new_ingester empty_store))).
          err_run_id r \<le> run_seq (db (new_ingester empty_store))"
    by (simp add: new_ingester_def empty_store_def)
  from duplicate_failure_one_error_row[OF bad_date_run[of 0 "new_ingester empty_store"] bad_date_number this]
  show ?thesis .
qed

subsection \<open>A record whose case number is not a string\<close>

lemma null_number_run:
  "process_docket now null_number_docket \<sigma> = (Inl (no_attribute JNull ''strip''), \<sigma>)"
  "handle_failure H rid null_number_docket e \<sigma> = (Some (no_attribute JNull ''strip''), \<sigma>)"
  by (simp_all add: process_docket_def handle_failure_def dget_def null_number_docket_def
        str_strip_def Let_def)

text \<open>
  Claim C9 on the code: a batch of one record whose \<open>case_number\<close> is \<open>null\<close>. The
  processor raises \<open>AttributeError\<close>, the handler of unknown errors raises it again while
  it reads the case number, and the run ends with that exception: one record read, and
  none inserted, updated or failed; nothing is quarantined and no error row is written.
\<close>

theorem null_case_number_aborts_run:
  "fst (ingest_file example_hash example_clock ''dockets.json'' None [null_number_docket]
          (new_ingester empty_store)) = Inl (no_attribute JNull ''strip'')
   \<and> c_read (snd (ingest_file example_hash example_clock ''dockets.json'' None
          [null_number_docket] (new_ingester empty_store))) = 1
   \<and> c_inserted (snd (ingest_file example_hash example_clock ''dockets.json'' None
          [null_number_docket] (new_ingester empty_store))) = 0
   \<and> c_updated (snd (ingest_file example_hash example_clock ''dockets.json'' None
          [null_number_docket] (new_ingester empty_store))) = 0
   \<and> c_failed (snd (ingest_file example_hash example_clock ''dockets.json'' None
          [null_number_docket] (new_ingester empty_store))) = 0
   \<and> ingest_errors (db (snd (ingest_file example_hash example_clock ''dockets.json'' None
          [null_number_docket] (new_ingester empty_store)))) = []
   \<and> files (snd (ingest_file example_hash example_clock ''dockets.json'' None
          [null_number_docket] (new_ingester empty_store))) (quarantine_file 1) = []"
  by (simp add: ingest_file_def start_run_def null_number_run Let_def commit_def rollback_def
        new_ingester_def empty_store_def)

text \<open>
  Claim C6 on the code: the record whose \<open>case_number\<close> is \<open>null\<close>, submitted twice in
  one run. The failure handler raises on the first occurrence, while it reads the case
  number, and the run ends there: the second occurrence is never read, the error table
  has no row for the record and no quarantine log has a line. (A rejected record whose
  case number is a string or absent does get one error row with \<open>retry_count\<close> 1 and
  two quarantine lines: \<open>duplicate_failure_one_error_row\<close>.)
\<close>

theorem null_case_number_twice:
  "fst (ingest_file example_hash example_clock ''dockets.json'' None
          [null_number_docket, null_number_docket] (new_ingester empty_store))
     = Inl (no_attribute JNull ''strip'')
   \<and> ingest_errors (db (snd (ingest_file example_hash example_clock ''dockets.json'' None
          [null_number_docket, null_number_docket] (new_ingester empty_store)))) = []
   \<and> files (snd (ingest_file example_hash example_clock ''dockets.json'' None
          [null_number_docket, null_number_docket] (new_ingester empty_store)))
       = (\<lambda>p. [])
   \<and> c_read (snd (ingest_file example_hash example_clock ''dockets.json'' None
          [null_number_docket, null_number_docket] (new_ingester empty_store))) = 1
   \<and> c_failed (snd (ingest_file example_hash example_clock ''dockets.json'' None
          [null_number_docket, null_number_docket] (new_ingester empty_store))) = 0"
  by (simp add: ingest_file_def start_run_def null_number_run Let_def commit_def rollback_def
        new_ingester_def empty_store_def)

subsection \<open>Lookups in a growing table\<close>

lemma select_id_append:
  "select_id k (rows @ [(i, n, k')]) =
     (case select_id k rows of Some j \<Rightarrow> Some j | None \<Rightarrow> if k' = k then Some i else None)"
  by (induction rows) (auto simp: select_id_def split: option.splits)

lemma select_type_id_append:
  "select_type_id k (rows @ [(i, k')]) =
     (case select_type_id k rows of Some j \<Rightarrow> Some j
      | None \<Rightarrow> if k' = k then Some i else None)"
  by (induction rows) (auto simp: select_type_id_def split: option.splits)

lemma map_le_upd_same: "f k = Some i \<Longrightarrow> c \<subseteq>\<^sub>m f \<Longrightarrow> c(k \<mapsto> i) \<subseteq>\<^sub>m f"
  by (auto simp: map_le_def)

lemma store_le_refl: "store_le s s"
  by (simp add: store_le_def)


lemma store_le_eq:
  "court_ids s' = court_ids s \<Longrightarrow> judge_ids s' = judge_ids s \<Longrightarrow> type_ids s' = type_ids s \<Longrightarrow>
   party_ids s' = party_ids s \<Longrightarrow> case_ids s' = case_ids s \<Longrightarrow>
   case_parties s' = case_parties s \<Longrightarrow> store_le s s'"
  by (simp add: store_le_def)

lemmas ids_defs = court_ids_def judge_ids_def type_ids_def party_ids_def case_ids_def

subsection \<open>A resolver step keeps the caches sound and the store growing\<close>

lemma court_step:
  assumes "get_or_create_court v \<sigma> = (Inr cid, \<sigma>')" and "cache_ok \<sigma>"
  shows "cache_ok \<sigma>'" and "store_le (db \<sigma>) (db \<sigma>')"
    and "\<exists>raw. v = JStr raw \<and> raw \<noteq> [] \<and> court_ids (db \<sigma>') (normalize_court_name raw) = Some cid"
proof -
  from assms(1) obtain raw where v: "v = JStr raw" "raw \<noteq> []"
    by (cases v) (auto simp: get_or_create_court_def no_attribute_def split: if_splits)
  let ?k = "normalize_court_name raw"
  show "cache_ok \<sigma>'" "store_le (db \<sigma>) (db \<sigma>')"
    "\<exists>raw. v = JStr raw \<and> raw \<noteq> [] \<and> court_ids (db \<sigma>') (normalize_court_name raw) = Some cid"
  proof (atomize (full), cases "courts_cache \<sigma> ?k")
    case (Some c)
    then show "cache_ok \<sigma>' \<and> store_le (db \<sigma>) (db \<sigma>') \<and>
      (\<exists>raw. v = JStr raw \<and> raw \<noteq> [] \<and> court_ids (db \<sigma>') (normalize_court_name raw) = Some cid)"
      using assms v
      by (auto simp: get_or_create_court_def record_court_variation_def cache_ok_def
            store_le_def ids_defs map_le_def dom_def split: if_splits)
  next
    case None
    show "cache_ok \<sigma>' \<and> store_le (db \<sigma>) (db \<sigma>') \<and>
      (\<exists>raw. v = JStr raw \<and> raw \<noteq> [] \<and> court_ids (db \<sigma>') (normalize_court_name raw) = Some cid)"
    proof (cases "select_id ?k (courts (db \<sigma>))")
      case (Some c)
      then show ?thesis using assms v None
        by (auto simp: get_or_create_court_def record_court_variation_def cache_ok_def
              store_le_def ids_defs map_le_def dom_def split: if_splits)
    next
      case N2: None
      then show ?thesis using assms v None
        by (auto simp: get_or_create_court_def record_court_variation_def cache_ok_def
              store_le_def ids_defs map_le_def dom_def select_id_append Let_def
              split: option.splits if_splits)
    qed
  qed
qed


lemma party_step:
  assumes "get_or_create_party v \<sigma> = (Inr cid, \<sigma>')" and "cache_ok \<sigma>"
  shows "cache_ok \<sigma>'" and "store_le (db \<sigma>) (db \<sigma>')"
    and "\<exists>raw. v = raw \<and> raw \<noteq> [] \<and> party_ids (db \<sigma>') (normalize_party_name raw) = Some cid"
proof -
  from assms(1) obtain raw where v: "v = raw" "raw \<noteq> []"
    by (auto simp: get_or_create_party_def split: if_splits)
  let ?k = "normalize_party_name raw"
  show "cache_ok \<sigma>'" "store_le (db \<sigma>) (db \<sigma>')"
    "\<exists>raw. v = raw \<and> raw \<noteq> [] \<and> party_ids (db \<sigma>') (normalize_party_name raw) = Some cid"
  proof (atomize (full), cases "parties_cache \<sigma> ?k")
    case (Some c)
    then show "cache_ok \<sigma>' \<and> store_le (db \<sigma>) (db \<sigma>') \<and>
      (\<exists>raw. v = raw \<and> raw \<noteq> [] \<and> party_ids (db \<sigma>') (normalize_party_name raw) = Some cid)"
      using assms v
      by (auto simp: get_or_create_party_def record_party_variation_def cache_ok_def
            store_le_def ids_defs map_le_def dom_def split: if_splits)
  next
    case None
    show "cache_ok \<sigma>' \<and> store_le (db \<sigma>) (db \<sigma>') \<and>
      (\<exists>raw. v = raw \<and> raw \<noteq> [] \<and> party_ids (db \<sigma>') (normalize_party_name raw) = Some cid)"
    proof (cases "select_id ?k (parties (db \<sigma>))")
      case (Some c)
      then show ?thesis using assms v None
        by (auto simp: get_or_create_party_def record_party_variation_def cache_ok_def
              store_le_def ids_defs map_le_def dom_def split: if_splits)
    next
      case N2: None
      then show ?thesis using assms v None
        by (auto simp: get_or_create_party_def record_party_variation_def cache_ok_def
              store_le_def ids_defs map_le_def dom_def select_id_append Let_def
              split: option.splits if_splits)
    qed
  qed
qed



lemma case_type_step:
  assumes "get_or_create_case_type v \<sigma> = (Inr tid, \<sigma>')" and "cache_ok \<sigma>"
  shows "cache_ok \<sigma>'" and "store_le (db \<sigma>) (db \<sigma>')"
    and "\<exists>raw. v = JStr raw \<and> raw \<noteq> [] \<and> type_ids (db \<sigma>') (py_strip (py_lower raw)) = Some tid"
proof -
  from assms(1) obtain raw where v: "v = JStr raw" "raw \<noteq> []"
    by (cases v) (auto simp: get_or_create_case_type_def no_attribute_def split: if_splits)
  let ?k = "py_strip (py_lower raw)"
  show "cache_ok \<sigma>'" "store_le (db \<sigma>) (db \<sigma>')"
    "\<exists>raw. v = JStr raw \<and> raw \<noteq> [] \<and> type_ids (db \<sigma>') (py_strip (py_lower raw)) = Some tid"
  proof (atomize (full), cases "case_types_cache \<sigma> ?k")
    case (Some c)
    then show "cache_ok \<sigma>' \<and> store_le (db \<sigma>) (db \<sigma>') \<and>
      (\<exists>raw. v = JStr raw \<and> raw \<noteq> [] \<and> type_ids (db \<sigma>') (py_strip (py_lower raw)) = Some tid)"
      using assms v
      by (auto simp: get_or_create_case_type_def cache_ok_def
            store_le_def ids_defs map_le_def dom_def split: if_splits)
  next
    case None
    show "cache_ok \<sigma>' \<and> store_le (db \<sigma>) (db \<sigma>') \<and>
      (\<exists>raw. v = JStr raw \<and> raw \<noteq> [] \<and> type_ids (db \<sigma>') (py_strip (py_lower raw)) = Some tid)"
    proof (cases "select_type_id ?k (case_types (db \<sigma>))")
      case (Some c)
      then show ?thesis using assms v None
        by (auto simp: get_or_create_case_type_def cache_ok_def
              store_le_def ids_defs map_le_def dom_def split: if_splits)
    next
      case N2: None
      then show ?thesis using assms v None
        by (auto simp: get_or_create_case_type_def cache_ok_def
              store_le_def ids_defs map_le_def dom_def select_type_id_append Let_def
              split: option.splits if_splits)
    qed
  qed
qed

lemma judge_step:
  assumes "get_or_create_judge v \<sigma> = (Inr j, \<sigma>')" and "cache_ok \<sigma>"
  shows "cache_ok \<sigma>'" and "store_le (db \<sigma>) (db \<sigma>')"
    and "(j = None \<and> (\<forall>\<tau>. get_or_create_judge v \<tau> = (Inr None, \<tau>)))
       \<or> (\<exists>raw jid. v = JStr raw \<and> raw \<noteq> [] \<and> normalize_judge_name raw \<noteq> [] \<and> j = Some jid
             \<and> judge_ids (db \<sigma>') (normalize_judge_name raw) = Some jid)"
proof -
  let ?goal = "cache_ok \<sigma>' \<and> store_le (db \<sigma>) (db \<sigma>') \<and>
      ((j = None \<and> (\<forall>\<tau>. get_or_create_judge v \<tau> = (Inr None, \<tau>)))
       \<or> (\<exists>raw jid. v = JStr raw \<and> raw \<noteq> [] \<and> normalize_judge_name raw \<noteq> [] \<and> j = Some jid
             \<and> judge_ids (db \<sigma>') (normalize_judge_name raw) = Some jid))"
  have ?goal
  proof (cases "falsy v")
    case True
    then show ?thesis using assms by (simp add: get_or_create_judge_def store_le_refl)
  next
    case nf: False
    with assms(1) obtain raw where v: "v = JStr raw" "raw \<noteq> []"
      by (cases v) (auto simp: get_or_create_judge_def not_a_string_def split: if_splits)
    let ?k = "normalize_judge_name raw"
    show ?thesis
    proof (cases "?k = []")
      case True
      then show ?thesis using assms v by (simp add: get_or_create_judge_def store_le_refl)
    next
      case kne: False
      show ?thesis
      proof (cases "judges_cache \<sigma> ?k")
        case (Some c)
        then show ?thesis using assms v kne
          by (auto simp: get_or_create_judge_def record_judge_variation_def cache_ok_def
                store_le_def ids_defs map_le_def dom_def split: if_splits)
      next
        case None
        show ?thesis
        proof (cases "select_id ?k (judges (db \<sigma>))")
          case (Some c)
          then show ?thesis using assms v None kne
            by (auto simp: get_or_create_judge_def record_judge_variation_def cache_ok_def
                  store_le_def ids_defs map_le_def dom_def split: if_splits)
        next
          case N2: None
          then show ?thesis using assms v None kne
            by (auto simp: get_or_create_judge_def record_judge_variation_def cache_ok_def
                  store_le_def ids_defs map_le_def dom_def select_id_append Let_def
                  split: option.splits if_splits)
        qed
      qed
    qed
  qed
  then show "cache_ok \<sigma>'" and "store_le (db \<sigma>) (db \<sigma>')"
    and "(j = None \<and> (\<forall>\<tau>. get_or_create_judge v \<tau> = (Inr None, \<tau>)))
       \<or> (\<exists>raw jid. v = JStr raw \<and> raw \<noteq> [] \<and> normalize_judge_name raw \<noteq> [] \<and> j = Some jid
             \<and> judge_ids (db \<sigma>') (normalize_judge_name raw) = Some jid)"
    by blast+
qed

subsection \<open>A resolver step on a key the store has\<close>










subsection \<open>The upsert\<close>



subsection \<open>The same resolver step in the first and in the second run\<close>






subsection \<open>The party links\<close>





subsection \<open>One record in a run\<close>




subsection \<open>What the driver leaves alone\<close>







subsection \<open>A run keeps the caches sound and the store growing\<close>




subsection \<open>A record rejected by a validation step\<close>





text \<open>
  Every record that the processor rejects fails one of the checks, or, when it passes
  them all, fails after the upsert, where its parties are parsed.
\<close>

lemma first_some_Cons:
  "first_some (x # xs) = (case x of Some y \<Rightarrow> Some y | None \<Rightarrow> first_some xs)"
  by (cases x) simp_all

lemma docket_error_check:
  "docket_error docket =
     (case failing_check docket of
        Some (chk, e) \<Rightarrow> Some e
      | None \<Rightarrow> parties_error (dget docket ''parties'' (JStr [])))"
  by (simp add: docket_error_def failing_check_def first_some_Cons
        split: sum.splits option.splits)

lemma rejected_record:
  "fst (process_docket now docket \<sigma>) = Inl e \<longleftrightarrow>
     (\<exists>chk. failing_check docket = Some (chk, e))
   \<or> (failing_check docket = None
        \<and> parse_parties (dget docket ''parties'' (JStr [])) = Inl e)"
  by (auto simp: process_docket_error docket_error_check parties_error_def
        split: option.splits sum.splits)












subsection \<open>Two spellings of one entity\<close>

lemma type_key_example:
  "py_strip (py_lower ''Civil'') = ''civil''" "py_strip (py_lower ''civil '') = ''civil''"
  by (simp_all add: py_lower_def to_lower_def py_strip_def is_space_def)

lemma cache_ok_new: "cache_ok (new_ingester s)"
  by (simp add: cache_ok_def new_ingester_def map_le_def)

text \<open>
  The id that a resolver returns from an ingester whose caches agree with the store is the
  id of the key in the store, and a new ingester on that store finds it there.
\<close>

lemma court_in_store:
  assumes "cache_ok \<sigma>" and "get_or_create_court (JStr a) \<sigma> = (Inr cid, \<sigma>1)"
    and "b \<noteq> []" and "normalize_court_name a = normalize_court_name b"
  shows "court_ids (db \<sigma>1) (normalize_court_name a) = Some cid
       \<and> fst (get_or_create_court (JStr b) (new_ingester (db \<sigma>1))) = Inr cid
       \<and> court_name_variations (db (snd (get_or_create_court (JStr b) (new_ingester (db \<sigma>1)))))
           = bump_variation (cid, b) (court_name_variations (db \<sigma>1))
       \<and> courts (db (snd (get_or_create_court (JStr b) (new_ingester (db \<sigma>1)))))
           = courts (db \<sigma>1)"
proof -
  from court_step(3)[OF assms(2,1)]
  have i: "court_ids (db \<sigma>1) (normalize_court_name a) = Some cid" by simp
  then have "select_id (normalize_court_name b) (courts (db \<sigma>1)) = Some cid"
    using assms(4) by (simp add: court_ids_def)
  then show ?thesis using i assms(3)
    by (simp add: get_or_create_court_def record_court_variation_def new_ingester_def)
qed

lemma judge_in_store:
  assumes "cache_ok \<sigma>" and "get_or_create_judge (JStr a) \<sigma> = (Inr (Some jid), \<sigma>1)"
    and "normalize_judge_name a \<noteq> []" and "normalize_judge_name a = normalize_judge_name b"
  shows "judge_ids (db \<sigma>1) (normalize_judge_name a) = Some jid
       \<and> fst (get_or_create_judge (JStr b) (new_ingester (db \<sigma>1))) = Inr (Some jid)
       \<and> judge_name_variations (db (snd (get_or_create_judge (JStr b) (new_ingester (db \<sigma>1)))))
           = bump_variation (jid, b) (judge_name_variations (db \<sigma>1))
       \<and> judges (db (snd (get_or_create_judge (JStr b) (new_ingester (db \<sigma>1)))))
           = judges (db \<sigma>1)"
proof -
  have "normalize_judge_name [] = []"
    using normalize_judge_name_blank[of "[]"] by simp
  then have b: "b \<noteq> []" using assms(3,4) by auto
  from judge_step(3)[OF assms(2,1)]
  have i: "judge_ids (db \<sigma>1) (normalize_judge_name a) = Some jid" by auto
  then have "select_id (normalize_judge_name b) (judges (db \<sigma>1)) = Some jid"
    using assms(4) by (simp add: judge_ids_def)
  then show ?thesis using i b assms(3,4)
    by (simp add: get_or_create_judge_def record_judge_variation_def new_ingester_def)
qed

lemma party_in_store:
  assumes "cache_ok \<sigma>" and "get_or_create_party a \<sigma> = (Inr pid, \<sigma>1)"
    and "b \<noteq> []" and "normalize_party_name a = normalize_party_name b"
  shows "party_ids (db \<sigma>1) (normalize_party_name a) = Some pid
       \<and> fst (get_or_create_party b (new_ingester (db \<sigma>1))) = Inr pid
       \<and> party_name_variations (db (snd (get_or_create_party b (new_ingester (db \<sigma>1)))))
           = bump_variation (pid, b) (party_name_variations (db \<sigma>1))
       \<and> parties (db (snd (get_or_create_party b (new_ingester (db \<sigma>1)))))
           = parties (db \<sigma>1)"
proof -
  from party_step(3)[OF assms(2,1)]
  have i: "party_ids (db \<sigma>1) (normalize_party_name a) = Some pid" by simp
  then have "select_id (normalize_party_name b) (parties (db \<sigma>1)) = Some pid"
    using assms(4) by (simp add: party_ids_def)
  then show ?thesis using i assms(3)
    by (simp add: get_or_create_party_def record_party_variation_def new_ingester_def)
qed

lemma case_type_in_store:
  assumes "cache_ok \<sigma>" and "get_or_create_case_type (JStr a) \<sigma> = (Inr tid, \<sigma>1)"
    and "b \<noteq> []" and "py_strip (py_lower a) = py_strip (py_lower b)"
  shows "type_ids (db \<sigma>1) (py_strip (py_lower a)) = Some tid
       \<and> fst (get_or_create_case_type (JStr b) (new_ingester (db \<sigma>1))) = Inr tid
       \<and> db (snd (get_or_create_case_type (JStr b) (new_ingester (db \<sigma>1)))) = db \<sigma>1"
proof -
  from case_type_step(3)[OF assms(2,1)]
  have i: "type_ids (db \<sigma>1) (py_strip (py_lower a)) = Some tid" by simp
  then have "select_type_id (py_strip (py_lower b)) (case_types (db \<sigma>1)) = Some tid"
    using assms(4) by (simp add: type_ids_def)
  then show ?thesis using i assms(3)
    by (simp add: get_or_create_case_type_def new_ingester_def)
qed

text \<open>The case-type resolver on two spellings with the same key.\<close>

lemma case_type_twice:
  assumes "a \<noteq> []" and "b \<noteq> []" and "py_strip (py_lower a) = py_strip (py_lower b)"
  shows "\<exists>tid \<sigma>1.
           get_or_create_case_type (JStr a) \<sigma> = (Inr tid, \<sigma>1)
         \<and> get_or_create_case_type (JStr b) \<sigma>1 = (Inr tid, \<sigma>1)
         \<and> (db \<sigma>1 = db \<sigma>
              \<or> db \<sigma>1 = (db \<sigma>)\<lparr>case_types := case_types (db \<sigma>) @ [(tid, py_strip (py_lower a))],
                                case_type_seq := tid\<rparr>)"
proof (cases "case_types_cache \<sigma> (py_strip (py_lower a))")
  case (Some t)
  then show ?thesis using assms by (simp add: get_or_create_case_type_def)
next
  case None
  show ?thesis
  proof (cases "select_type_id (py_strip (py_lower a)) (case_types (db \<sigma>))")
    case N2: None
    show ?thesis using assms None N2
      by (simp add: get_or_create_case_type_def Let_def)
  next
    case (Some t)
    show ?thesis using assms None Some
      by (simp add: get_or_create_case_type_def Let_def)
  qed
qed

text \<open>
  Claim C7 as stated fails for case types: the two spellings \<open>Civil\<close> and \<open>civil\<close>
  followed by a blank get the same id, and the store after the two calls holds the one
  case-type row and nothing else: no name variation is recorded for either raw string.
\<close>

theorem case_type_records_no_variation:
  "fst (get_or_create_case_type (JStr ''Civil'') (new_ingester empty_store)) = Inr 1
   \<and> fst (get_or_create_case_type (JStr ''civil '')
            (snd (get_or_create_case_type (JStr ''Civil'') (new_ingester empty_store)))) = Inr 1
   \<and> db (snd (get_or_create_case_type (JStr ''civil '')
            (snd (get_or_create_case_type (JStr ''Civil'') (new_ingester empty_store)))))
       = empty_store\<lparr>case_types := [(1, ''civil'')], case_type_seq := 1\<rparr>"
  by (simp add: type_key_example resolver_defs new_ingester_def empty_store_def
        select_type_id_def Let_def)

text \<open>
  Claim C7, as the code has it. For two raw spellings with the same normalized key, the
  resolver of a court, a judge or a party returns the same id on both calls, from any
  state of the store and the cache, and each call records its raw string in the
  name-variation table of the kind: after the two calls the row of the first spelling
  exists with its count, incremented by the second call exactly when the two strings are
  equal, and the row of the second spelling exists. When the caches agree with the store,
  the id is the one the store has for the key, and a new ingester on that store, whose
  cache misses, returns the same id for the second spelling and records it without
  inserting a row. The resolver of a case type returns the same id on both calls as well,
  and from a new ingester, but records no name variation: the first call at most appends
  the case-type row of the key, the second changes nothing. The raw strings are spellings
  of an entity: not empty, and with a key that is not empty for a judge.
\<close>

theorem same_key_same_id:
  assumes "a \<noteq> []" and "b \<noteq> []" and "normalize_court_name a = normalize_court_name b"
    and "normalize_judge_name ja \<noteq> []" and "normalize_judge_name ja = normalize_judge_name jb"
    and "pa \<noteq> []" and "pb \<noteq> []" and "normalize_party_name pa = normalize_party_name pb"
    and "ta \<noteq> []" and "tb \<noteq> []" and "py_strip (py_lower ta) = py_strip (py_lower tb)"
  shows "(\<exists>cid \<sigma>1 \<sigma>2 n m.
            get_or_create_court (JStr a) \<sigma> = (Inr cid, \<sigma>1)
          \<and> get_or_create_court (JStr b) \<sigma>1 = (Inr cid, \<sigma>2)
          \<and> court_name_variations (db \<sigma>1)
              = bump_variation (cid, a) (court_name_variations (db \<sigma>))
          \<and> court_name_variations (db \<sigma>2)
              = bump_variation (cid, b) (court_name_variations (db \<sigma>1))
          \<and> court_name_variations (db \<sigma>1) (cid, a) = Some n
          \<and> court_name_variations (db \<sigma>2) (cid, a) = Some (if a = b then Suc n else n)
          \<and> court_name_variations (db \<sigma>2) (cid, b) = Some m
          \<and> (cache_ok \<sigma> \<longrightarrow>
                court_ids (db \<sigma>1) (normalize_court_name a) = Some cid
              \<and> fst (get_or_create_court (JStr b) (new_ingester (db \<sigma>1))) = Inr cid
              \<and> court_name_variations
                  (db (snd (get_or_create_court (JStr b) (new_ingester (db \<sigma>1)))))
                  = bump_variation (cid, b) (court_name_variations (db \<sigma>1))
              \<and> courts (db (snd (get_or_create_court (JStr b) (new_ingester (db \<sigma>1)))))
                  = courts (db \<sigma>1)))
       \<and> (\<exists>jid \<sigma>1 \<sigma>2 n m.
            get_or_create_judge (JStr ja) \<sigma> = (Inr (Some jid), \<sigma>1)
          \<and> get_or_create_judge (JStr jb) \<sigma>1 = (Inr (Some jid), \<sigma>2)
          \<and> judge_name_variations (db \<sigma>1)
              = bump_variation (jid, ja) (judge_name_variations (db \<sigma>))
          \<and> judge_name_variations (db \<sigma>2)
              = bump_variation (jid, jb) (judge_name_variations (db \<sigma>1))
          \<and> judge_name_variations (db \<sigma>1) (jid, ja) = Some n
          \<and> judge_name_variations (db \<sigma>2) (jid, ja) = Some (if ja = jb then Suc n else n)
          \<and> judge_name_variations (db \<sigma>2) (jid, jb) = Some m
          \<and> (cache_ok \<sigma> \<longrightarrow>
                judge_ids (db \<sigma>1) (normalize_judge_name ja) = Some jid
              \<and> fst (get_or_create_judge (JStr jb) (new_ingester (db \<sigma>1))) = Inr (Some jid)
              \<and> judge_name_variations
                  (db (snd (get_or_create_judge (JStr jb) (new_ingester (db \<sigma>1)))))
                  = bump_variation (jid, jb) (judge_name_variations (db \<sigma>1))
              \<and> judges (db (snd (get_or_create_judge (JStr jb) (new_ingester (db \<sigma>1)))))
                  = judges (db \<sigma>1)))
       \<and> (\<exists>pid \<sigma>1 \<sigma>2 n m.
            get_or_create_party pa \<sigma> = (Inr pid, \<sigma>1)
          \<and> get_or_create_party pb \<sigma>1 = (Inr pid, \<sigma>2)
          \<and> party_name_variations (db \<sigma>1)
              = bump_variation (pid, pa) (party_name_variations (db \<sigma>))
          \<and> party_name_variations (db \<sigma>2)
              = bump_variation (pid, pb) (party_name_variations (db \<sigma>1))
          \<and> party_name_variations (db \<sigma>1) (pid, pa) = Some n
          \<and> party_name_variations (db \<sigma>2) (pid, pa) = Some (if pa = pb then Suc n else n)
          \<and> party_name_variations (db \<sigma>2) (pid, pb) = Some m
          \<and> (cache_ok \<sigma> \<longrightarrow>
                party_ids (db \<sigma>1) (normalize_party_name pa) = Some pid
              \<and> fst (get_or_create_party pb (new_ingester (db \<sigma>1))) = Inr pid
              \<and> party_name_variations
                  (db (snd (get_or_create_party pb (new_ingester (db \<sigma>1)))))
                  = bump_variation (pid, pb) (party_name_variations (db \<sigma>1))
              \<and> parties (db (snd (get_or_create_party pb (new_ingester (db \<sigma>1)))))
                  = parties (db \<sigma>1)))
       \<and> (\<exists>tid \<sigma>1.
            get_or_create_case_type (JStr ta) \<sigma> = (Inr tid, \<sigma>1)
          \<and> get_or_create_case_type (JStr tb) \<sigma>1 = (Inr tid, \<sigma>1)
          \<and> (db \<sigma>1 = db \<sigma>
               \<or> db \<sigma>1 = (db \<sigma>)\<lparr>case_types := case_types (db \<sigma>)
                                                  @ [(tid, py_strip (py_lower ta))],
                                 case_type_seq := tid\<rparr>)
          \<and> court_name_variations (db \<sigma>1) = court_name_variations (db \<sigma>)
          \<and> judge_name_variations (db \<sigma>1) = judge_name_variations (db \<sigma>)
          \<and> party_name_variations (db \<sigma>1) = party_name_variations (db \<sigma>)
          \<and> (cache_ok \<sigma> \<longrightarrow>
                type_ids (db \<sigma>1) (py_strip (py_lower ta)) = Some tid
              \<and> fst (get_or_create_case_type (JStr tb) (new_ingester (db \<sigma>1))) = Inr tid
              \<and> db (snd (get_or_create_case_type (JStr tb) (new_ingester (db \<sigma>1))))
                  = db \<sigma>1))"
proof (intro conjI)
  from court_twice[OF assms(1-3), of \<sigma>] obtain cid \<sigma>1 \<sigma>2 where
    c: "get_or_create_court (JStr a) \<sigma> = (Inr cid, \<sigma>1)"
       "get_or_create_court (JStr b) \<sigma>1 = (Inr cid, \<sigma>2)"
       "court_name_variations (db \<sigma>1) = bump_variation (cid, a) (court_name_variations (db \<sigma>))"
       "court_name_variations (db \<sigma>2) = bump_variation (cid, b) (court_name_variations (db \<sigma>1))"
    by blast
  from bump_twice[of cid a "court_name_variations (db \<sigma>)" b] obtain n where
    n: "bump_variation (cid, a) (court_name_variations (db \<sigma>)) (cid, a) = Some n"
       "bump_variation (cid, b) (bump_variation (cid, a) (court_name_variations (db \<sigma>))) (cid, a)
          = Some (if a = b then Suc n else n)"
    by blast
  from bump_present[of "(cid, b)" "bump_variation (cid, a) (court_name_variations (db \<sigma>))"]
  obtain m where
    m: "bump_variation (cid, b) (bump_variation (cid, a) (court_name_variations (db \<sigma>))) (cid, b)
          = Some m"
    by blast
  note s = court_in_store[OF _ c(1) assms(2,3)]
  show "\<exists>cid \<sigma>1 \<sigma>2 n m.
            get_or_create_court (JStr a) \<sigma> = (Inr cid, \<sigma>1)
          \<and> get_or_create_court (JStr b) \<sigma>1 = (Inr cid, \<sigma>2)
          \<and> court_name_variations (db \<sigma>1)
              = bump_variation (cid, a) (court_name_variations (db \<sigma>))
          \<and> court_name_variations (db \<sigma>2)
              = bump_variation (cid, b) (court_name_variations (db \<sigma>1))
          \<and> court_name_variations (db \<sigma>1) (cid, a) = Some n
          \<and> court_name_variations (db \<sigma>2) (cid, a) = Some (if a = b then Suc n else n)
          \<and> court_name_variations (db \<sigma>2) (cid, b) = Some m
          \<and> (cache_ok \<sigma> \<longrightarrow>
                court_ids (db \<sigma>1) (normalize_court_name a) = Some cid
              \<and> fst (get_or_create_court (JStr b) (new_ingester (db \<sigma>1))) = Inr cid
              \<and> court_name_variations
                  (db (snd (get_or_create_court (JStr b) (new_ingester (db \<sigma>1)))))
                  = bump_variation (cid, b) (court_name_variations (db \<sigma>1))
              \<and> courts (db (snd (get_or_create_court (JStr b) (new_ingester (db \<sigma>1)))))
                  = courts (db \<sigma>1))"
    by (intro exI[of _ cid] exI[of _ \<sigma>1] exI[of _ \<sigma>2] exI[of _ n] exI[of _ m] conjI impI
          c(1,2,3,4) s)
       (simp_all only: c(3,4) n m)
next
  from judge_twice[OF assms(4-5), of \<sigma>] obtain jid \<sigma>1 \<sigma>2 where
    c: "get_or_create_judge (JStr ja) \<sigma> = (Inr (Some jid), \<sigma>1)"
       "get_or_create_judge (JStr jb) \<sigma>1 = (Inr (Some jid), \<sigma>2)"
       "judge_name_variations (db \<sigma>1) = bump_variation (jid, ja) (judge_name_variations (db \<sigma>))"
       "judge_name_variations (db \<sigma>2) = bump_variation (jid, jb) (judge_name_variations (db \<sigma>1))"
    by blast
  from bump_twice[of jid ja "judge_name_variations (db \<sigma>)" jb] obtain n where
    n: "bump_variation (jid, ja) (judge_name_variations (db \<sigma>)) (jid, ja) = Some n"
       "bump_variation (jid, jb) (bump_variation (jid, ja) (judge_name_variations (db \<sigma>)))
          (jid, ja) = Some (if ja = jb then Suc n else n)"
    by blast
  from bump_present[of "(jid, jb)" "bump_variation (jid, ja) (judge_name_variations (db \<sigma>))"]
  obtain m where
    m: "bump_variation (jid, jb) (bump_variation (jid, ja) (judge_name_variations (db \<sigma>)))
          (jid, jb) = Some m"
    by blast
  note s = judge_in_store[OF _ c(1) assms(4,5)]
  show "\<exists>jid \<sigma>1 \<sigma>2 n m.
            get_or_create_judge (JStr ja) \<sigma> = (Inr (Some jid), \<sigma>1)
          \<and> get_or_create_judge (JStr jb) \<sigma>1 = (Inr (Some jid), \<sigma>2)
          \<and> judge_name_variations (db \<sigma>1)
              = bump_variation (jid, ja) (judge_name_variations (db \<sigma>))
          \<and> judge_name_variations (db \<sigma>2)
              = bump_variation (jid, jb) (judge_name_variations (db \<sigma>1))
          \<and> judge_name_variations (db \<sigma>1) (jid, ja) = Some n
          \<and> judge_name_variations (db \<sigma>2) (jid, ja) = Some (if ja = jb then Suc n else n)
          \<and> judge_name_variations (db \<sigma>2) (jid, jb) = Some m
          \<and> (cache_ok \<sigma> \<longrightarrow>
                judge_ids (db \<sigma>1) (normalize_judge_name ja) = Some jid
              \<and> fst (get_or_create_judge (JStr jb) (new_ingester (db \<sigma>1))) = Inr (Some jid)
              \<and> judge_name_variations
                  (db (snd (get_or_create_judge (JStr jb) (new_ingester (db \<sigma>1)))))
                  = bump_variation (jid, jb) (judge_name_variations (db \<sigma>1))
              \<and> judges (db (snd (get_or_create_judge (JStr jb) (new_ingester (db \<sigma>1)))))
                  = judges (db \<sigma>1))"
    by (intro exI[of _ jid] exI[of _ \<sigma>1] exI[of _ \<sigma>2] exI[of _ n] exI[of _ m] conjI impI
          c(1,2,3,4) s)
       (simp_all only: c(3,4) n m)
next
  from party_twice[OF assms(6-8), of \<sigma>] obtain pid \<sigma>1 \<sigma>2 where
    c: "get_or_create_party pa \<sigma> = (Inr pid, \<sigma>1)"
       "get_or_create_party pb \<sigma>1 = (Inr pid, \<sigma>2)"
       "party_name_variations (db \<sigma>1) = bump_variation (pid, pa) (party_name_variations (db \<sigma>))"
       "party_name_variations (db \<sigma>2) = bump_variation (pid, pb) (party_name_variations (db \<sigma>1))"
    by blast
  from bump_twice[of pid pa "party_name_variations (db \<sigma>)" pb] obtain n where
    n: "bump_variation (pid, pa) (party_name_variations (db \<sigma>)) (pid, pa) = Some n"
       "bump_variation (pid, pb) (bump_variation (pid, pa) (party_name_variations (db \<sigma>)))
          (pid, pa) = Some (if pa = pb then Suc n else n)"
    by blast
  from bump_present[of "(pid, pb)" "bump_variation (pid, pa) (party_name_variations (db \<sigma>))"]
  obtain m where
    m: "bump_variation (pid, pb) (bump_variation (pid, pa) (party_name_variations (db \<sigma>)))
          (pid, pb) = Some m"
    by blast
  note s = party_in_store[OF _ c(1) assms(7,8)]
  show "\<exists>pid \<sigma>1 \<sigma>2 n m.
            get_or_create_party pa \<sigma> = (Inr pid, \<sigma>1)
          \<and> get_or_create_party pb \<sigma>1 = (Inr pid, \<sigma>2)
          \<and> party_name_variations (db \<sigma>1)
              = bump_variation (pid, pa) (party_name_variations (db \<sigma>))
          \<and> party_name_variations (db \<sigma>2)
              = bump_variation (pid, pb) (party_name_variations (db \<sigma>1))
          \<and> party_name_variations (db \<sigma>1) (pid, pa) = Some n
          \<and> party_name_variations (db \<sigma>2) (pid, pa) = Some (if pa = pb then Suc n else n)
          \<and> party_name_variations (db \<sigma>2) (pid, pb) = Some m
          \<and> (cache_ok \<sigma> \<longrightarrow>
                party_ids (db \<sigma>1) (normalize_party_name pa) = Some pid
              \<and> fst (get_or_create_party pb (new_ingester (db \<sigma>1))) = Inr pid
              \<and> party_name_variations
                  (db (snd (get_or_create_party pb (new_ingester (db \<sigma>1)))))
                  = bump_variation (pid, pb) (party_name_variations (db \<sigma>1))
              \<and> parties (db (snd (get_or_create_party pb (new_ingester (db \<sigma>1)))))
                  = parties (db \<sigma>1))"
    by (intro exI[of _ pid] exI[of _ \<sigma>1] exI[of _ \<sigma>2] exI[of _ n] exI[of _ m] conjI impI
          c(1,2,3,4) s)
       (simp_all only: c(3,4) n m)
next
  from case_type_twice[OF assms(9-11), of \<sigma>] obtain tid \<sigma>1 where
    c: "get_or_create_case_type (JStr ta) \<sigma> = (Inr tid, \<sigma>1)"
       "get_or_create_case_type (JStr tb) \<sigma>1 = (Inr tid, \<sigma>1)"
       "db \<sigma>1 = db \<sigma>
        \<or> db \<sigma>1 = (db \<sigma>)\<lparr>case_types := case_types (db \<sigma>) @ [(tid, py_strip (py_lower ta))],
                          case_type_seq := tid\<rparr>"
    by blast
  have v: "court_name_variations (db \<sigma>1) = court_name_variations (db \<sigma>)"
    "judge_name_variations (db \<sigma>1) = judge_name_variations (db \<sigma>)"
    "party_name_variations (db \<sigma>1) = party_name_variations (db \<sigma>)"
    using c(3) by auto
  note s = case_type_in_store[OF _ c(1) assms(10,11)]
  show "\<exists>tid \<sigma>1.
            get_or_create_case_type (JStr ta) \<sigma> = (Inr tid, \<sigma>1)
          \<and> get_or_create_case_type (JStr tb) \<sigma>1 = (Inr tid, \<sigma>1)
          \<and> (db \<sigma>1 = db \<sigma>
               \<or> db \<sigma>1 = (db \<sigma>)\<lparr>case_types := case_types (db \<sigma>)
                                                  @ [(tid, py_strip (py_lower ta))],
                                 case_type_seq := tid\<rparr>)
          \<and> court_name_variations (db \<sigma>1) = court_name_variations (db \<sigma>)
          \<and> judge_name_variations (db \<sigma>1) = judge_name_variations (db \<sigma>)
          \<and> party_name_variations (db \<sigma>1) = party_name_variations (db \<sigma>)
          \<and> (cache_ok \<sigma> \<longrightarrow>
                type_ids (db \<sigma>1) (py_strip (py_lower ta)) = Some tid
              \<and> fst (get_or_create_case_type (JStr tb) (new_ingester (db \<sigma>1))) = Inr tid
              \<and> db (snd (get_or_create_case_type (JStr tb) (new_ingester (db \<sigma>1))))
                  = db \<sigma>1)"
    by (intro exI[of _ tid] exI[of _ \<sigma>1] conjI impI c v s)
qed

theorem same_key_same_id_witness:
  "(\<exists>cid. fst (get_or_create_court (JStr ''S.D.N.Y.'') (new_ingester empty_store)) = Inr cid
      \<and> fst (get_or_create_court (JStr ''s.d.n.y'')
             (snd (get_or_create_court (JStr ''S.D.N.Y.'') (new_ingester empty_store))))
          = Inr cid
      \<and> fst (get_or_create_court (JStr ''s.d.n.y'')
             (new_ingester
                (db (snd (get_or_create_court (JStr ''S.D.N.Y.'') (new_ingester empty_store))))))
          = Inr cid)
   \<and> (\<exists>jid. fst (get_or_create_judge (JStr ''Hon. Maria Rodriguez'')
                    (new_ingester empty_store)) = Inr (Some jid)
      \<and> fst (get_or_create_judge (JStr ''Judge Maria Rodriguez'')
             (snd (get_or_create_judge (JStr ''Hon. Maria Rodriguez'')
                    (new_ingester empty_store))))
          = Inr (Some jid)
      \<and> fst (get_or_create_judge (JStr ''Judge Maria Rodriguez'')
             (new_ingester
                (db (snd (get_or_create_judge (JStr ''Hon. Maria Rodriguez'')
                       (new_ingester empty_store))))))
          = Inr (Some jid))
   \<and> (\<exists>pid. fst (get_or_create_party ''Acme Corp'' (new_ingester empty_store)) = Inr pid
      \<and> fst (get_or_create_party ''ACME  corp''
             (snd (get_or_create_party ''Acme Corp'' (new_ingester empty_store))))
          = Inr pid
      \<and> fst (get_or_create_party ''ACME  corp''
             (new_ingester
                (db (snd (get_or_create_party ''Acme Corp'' (new_ingester empty_store))))))
          = Inr pid)
   \<and> (\<exists>tid. fst (get_or_create_case_type (JStr ''Civil'') (new_ingester empty_store)) = Inr tid
      \<and> fst (get_or_create_case_type (JStr ''civil '')
             (snd (get_or_create_case_type (JStr ''Civil'') (new_ingester empty_store))))
          = Inr tid
      \<and> fst (get_or_create_case_type (JStr ''civil '')
             (new_ingester
                (db (snd (get_or_create_case_type (JStr ''Civil'')
                       (new_ingester empty_store))))))
          = Inr tid)"
proof -
  have h: "''S.D.N.Y.'' \<noteq> []" "''s.d.n.y'' \<noteq> []"
    "normalize_court_name ''S.D.N.Y.'' = normalize_court_name ''s.d.n.y''"
    "normalize_judge_name ''Hon. Maria Rodriguez'' \<noteq> []"
    "normalize_judge_name ''Hon. Maria Rodriguez'' = normalize_judge_name ''Judge Maria Rodriguez''"
    "''Acme Corp'' \<noteq> []" "''ACME  corp'' \<noteq> []"
    "normalize_party_name ''Acme Corp'' = normalize_party_name ''ACME  corp''"
    "''Civil'' \<noteq> []" "''civil '' \<noteq> []"
    "py_strip (py_lower ''Civil'') = py_strip (py_lower ''civil '')"
    by (simp_all add: court_key_example judge_key_example party_key_example type_key_example)
  from same_key_same_id[OF h, of "new_ingester empty_store"] cache_ok_new[of empty_store]
  show ?thesis by (elim conjE exE) simp
qed

subsection \<open>The second run replays the first\<close>








subsection \<open>The two runs of the example batch\<close>









end
